theory Spec2Isabelle
  imports Complex_Main
begin

section \<open>Python values\<close>

text \<open>
  A Python \<^verbatim>\<open>str\<close> is a sequence of Unicode code points and \<^verbatim>\<open>len\<close> counts code
  points, so a string is a list of code points. ASCII literals are written through
  \<open>str\<close>; the glyphs of the transcript are given by their code points.
\<close>

type_synonym pystr = "nat list"

abbreviation (input) str :: "string \<Rightarrow> pystr" where
  "str s \<equiv> map of_char s"

text \<open>\<^verbatim>\<open>a.startswith(b)\<close>: the text \<open>a\<close> extends the text \<open>b\<close>.\<close>

definition startswith :: "pystr \<Rightarrow> pystr \<Rightarrow> bool" where
  "startswith a b = (take (length b) a = b)"

text \<open>
  The input of a tool call is a JSON object. The model keeps the keys that the
  transcript renderer reads, with the value types the tools give them: strings, and a
  list of strings under \<^verbatim>\<open>paths\<close>. A key that is absent is \<open>None\<close>.
\<close>

record tool_input =
  ti_command :: "pystr option"
  ti_path :: "pystr option"
  ti_file_path :: "pystr option"
  ti_file :: "pystr option"
  ti_paths :: "pystr list option"
  ti_pattern :: "pystr option"
  ti_include :: "pystr option"

definition empty_input :: tool_input where
  "empty_input = \<lparr>ti_command = None, ti_path = None, ti_file_path = None, ti_file = None,
     ti_paths = None, ti_pattern = None, ti_include = None\<rparr>"

text \<open>
  The dictionaries carried in \<^verbatim>\<open>StreamUpdate.tool_calls\<close>: a tool call has the keys
  \<^verbatim>\<open>name\<close>, \<^verbatim>\<open>input\<close>, \<^verbatim>\<open>id\<close>; a tool result has \<^verbatim>\<open>tool_use_id\<close> and \<^verbatim>\<open>is_error\<close>.
  The handler reads them with \<^verbatim>\<open>.get\<close>, so every key is optional.
\<close>

record call_dict =
  d_name :: "pystr option"
  d_input :: "tool_input option"
  d_id :: "pystr option"
  d_tool_use_id :: "pystr option"
  d_is_error :: "bool option"

definition tool_call_dict :: "pystr \<Rightarrow> tool_input \<Rightarrow> pystr \<Rightarrow> call_dict" where
  "tool_call_dict n inp i =
     \<lparr>d_name = Some n, d_input = Some inp, d_id = Some i, d_tool_use_id = None, d_is_error = None\<rparr>"

definition tool_result_dict :: "pystr \<Rightarrow> bool option \<Rightarrow> call_dict" where
  "tool_result_dict i e =
     \<lparr>d_name = None, d_input = None, d_id = None, d_tool_use_id = Some i, d_is_error = e\<rparr>"

text \<open>
  \<^verbatim>\<open>StreamUpdate\<close>: the type tag, the optional content, the optional list of tool
  dictionaries, the progress percentage and the error message.
\<close>

record stream_update =
  utype :: string
  content :: "pystr option"
  tool_calls :: "call_dict list option"
  progress :: "nat option"
  error_info :: "pystr option"

definition progress_update :: "pystr \<Rightarrow> nat \<Rightarrow> stream_update" where
  "progress_update c p =
     \<lparr>utype = ''progress'', content = Some c, tool_calls = None, progress = Some p, error_info = None\<rparr>"

definition text_update :: "pystr \<Rightarrow> stream_update" where
  "text_update delta =
     \<lparr>utype = ''assistant'', content = Some delta, tool_calls = None, progress = None, error_info = None\<rparr>"

definition tool_update :: "call_dict list \<Rightarrow> stream_update" where
  "tool_update cs =
     \<lparr>utype = ''assistant'', content = None, tool_calls = Some cs, progress = None, error_info = None\<rparr>"

definition tool_result_update :: "call_dict list \<Rightarrow> stream_update" where
  "tool_result_update cs =
     \<lparr>utype = ''tool_result'', content = None, tool_calls = Some cs, progress = None, error_info = None\<rparr>"

definition error_update :: "pystr \<Rightarrow> stream_update" where
  "error_update m =
     \<lparr>utype = ''error'', content = Some m, tool_calls = None, progress = None, error_info = Some m\<rparr>"

definition result_update :: stream_update where
  "result_update =
     \<lparr>utype = ''result'', content = Some (str ''Task completed''), tool_calls = None,
      progress = Some 100, error_info = None\<rparr>"


section \<open>The block tracker: \<^verbatim>\<open>ClaudeAgentClient.stream_message\<close>\<close>

text \<open>
  The content blocks and the messages of the agent SDK. The content of a user message
  may also be a plain string, in which the loop finds no tool result: it is the empty
  list of blocks here.
\<close>

datatype block =
    TextBlock pystr
  | ToolUseBlock pystr pystr tool_input
  | ToolResultBlock pystr "bool option"
  | ThinkingBlock pystr

datatype message =
    AssistantMessage "block list"
  | UserMessage "block list"
  | SystemMessage
  | ResultMessage bool pystr

text \<open>
  What the iteration over \<^verbatim>\<open>client.receive_messages()\<close> does next: it hands over a
  message, or it raises (the text is \<^verbatim>\<open>str(e)\<close>). A list that ends is an iterator that
  is exhausted.
\<close>

datatype stream_item = Received message | Raised pystr

text \<open>The entry of \<^verbatim>\<open>session_states\<close> for one session.\<close>

record session_state =
  total_blocks_seen :: nat
  current_text_content :: pystr

definition fresh_state :: session_state where
  "fresh_state = \<lparr>total_blocks_seen = 0, current_text_content = []\<rparr>"

text \<open>
  One pass of the body of \<^verbatim>\<open>for block in msg.content\<close>, on the session state and the
  cursor \<^verbatim>\<open>current_block_index\<close>: the updates yielded, the state and the cursor after.
  A block that is neither a text nor a tool use falls through both \<^verbatim>\<open>isinstance\<close>
  tests and leaves the cursor where it is.
\<close>

fun process_block :: "session_state \<Rightarrow> nat \<Rightarrow> block \<Rightarrow> stream_update list \<times> session_state \<times> nat" where
  "process_block st cbi b =
     (if cbi < total_blocks_seen st then ([], st, cbi + 1)
      else case b of
        TextBlock t \<Rightarrow>
          (let delta = drop (length (current_text_content st)) t in
           if delta \<noteq> [] then ([text_update delta], st\<lparr>current_text_content := t\<rparr>, cbi + 1)
           else ([], st, cbi + 1))
      | ToolUseBlock i n inp \<Rightarrow>
          ([tool_update [tool_call_dict n inp i]],
           st\<lparr>total_blocks_seen := cbi + 1, current_text_content := []\<rparr>, cbi + 1)
      | _ \<Rightarrow> ([], st, cbi))"

fun process_blocks :: "session_state \<Rightarrow> nat \<Rightarrow> block list \<Rightarrow> stream_update list \<times> session_state \<times> nat" where
  "process_blocks st cbi [] = ([], st, cbi)"
| "process_blocks st cbi (b # bs) =
     (case process_block st cbi b of (out, st', cbi') \<Rightarrow>
        (case process_blocks st' cbi' bs of (outs, r) \<Rightarrow> (out @ outs, r)))"

text \<open>The tool results of a user message.\<close>

fun tool_results :: "block list \<Rightarrow> call_dict list" where
  "tool_results [] = []"
| "tool_results (ToolResultBlock i e # bs) = tool_result_dict i e # tool_results bs"
| "tool_results (_ # bs) = tool_results bs"

text \<open>
  The loop \<^verbatim>\<open>async for msg in client.receive_messages()\<close>. A result message sets
  \<^verbatim>\<open>total_blocks_seen\<close> to the cursor and breaks; an exception is caught outside the
  loop and yields one error update.
\<close>

fun receive_messages :: "session_state \<Rightarrow> nat \<Rightarrow> stream_item list \<Rightarrow> stream_update list \<times> session_state" where
  "receive_messages st cbi [] = ([], st)"
| "receive_messages st cbi (Raised e # ms) = ([error_update e], st)"
| "receive_messages st cbi (Received (AssistantMessage bs) # ms) =
     (case process_blocks st cbi bs of (out, st', cbi') \<Rightarrow>
        (case receive_messages st' cbi' ms of (outs, r) \<Rightarrow> (out @ outs, r)))"
| "receive_messages st cbi (Received (UserMessage bs) # ms) =
     (case receive_messages st cbi ms of (outs, r) \<Rightarrow>
        ((if tool_results bs \<noteq> [] then [tool_result_update (tool_results bs)] else []) @ outs, r))"
| "receive_messages st cbi (Received SystemMessage # ms) = receive_messages st cbi ms"
| "receive_messages st cbi (Received (ResultMessage is_error res) # ms) =
     ([if is_error then error_update res else result_update], st\<lparr>total_blocks_seen := cbi\<rparr>)"

text \<open>
  \<^verbatim>\<open>stream_message\<close>, on the dictionary \<^verbatim>\<open>session_states\<close>: the updates it yields when
  the caller drains it, and the dictionary after. \<open>connect\<close> is the exception, if any,
  raised while the client is opened and the query is sent, before anything is yielded.
\<close>

type_synonym session_states = "pystr \<rightharpoonup> session_state"

definition session_get :: "session_states \<Rightarrow> pystr \<Rightarrow> session_state" where
  "session_get states sid = (case states sid of None \<Rightarrow> fresh_state | Some st \<Rightarrow> st)"

definition stream_message ::
  "session_states \<Rightarrow> pystr \<Rightarrow> pystr option \<Rightarrow> stream_item list \<Rightarrow> stream_update list \<times> session_states" where
  "stream_message states sid connect items =
     (case connect of
        Some e \<Rightarrow> ([error_update e], states)
      | None \<Rightarrow>
          (case receive_messages (session_get states sid) 0 items of
             (out, st') \<Rightarrow>
               (progress_update (str ''Starting Claude Agent...'') 0 # out, states(sid \<mapsto> st'))))"

text \<open>The text deltas among the updates, concatenated in the order they were yielded.\<close>

fun emitted_text :: "stream_update list \<Rightarrow> pystr" where
  "emitted_text [] = []"
| "emitted_text (u # us) =
     (if utype u = ''assistant'' then (case content u of None \<Rightarrow> [] | Some c \<Rightarrow> c) else [])
     @ emitted_text us"

text \<open>Each text of the list extends the one before it, the first one extends \<open>c\<close>.\<close>

fun grows :: "pystr \<Rightarrow> pystr list \<Rightarrow> bool" where
  "grows c [] = True"
| "grows c (t # ts) = (startswith t c \<and> grows t ts)"

text \<open>A stream of assistant messages, one per list of blocks.\<close>

definition assistant_messages :: "block list list \<Rightarrow> stream_item list" where
  "assistant_messages bss = map (\<lambda>bs. Received (AssistantMessage bs)) bss"


text \<open>
  The stream has come to its end: the iterator is exhausted, a result message makes the
  loop break, or an exception leaves it.
\<close>

fun ends_turn :: "stream_item list \<Rightarrow> bool" where
  "ends_turn [] = True"
| "ends_turn (Raised e # ms) = True"
| "ends_turn (Received (ResultMessage is_error res) # ms) = True"
| "ends_turn (Received m # ms) = False"





text \<open>
  The number of assistant blocks received before the first result message; \<open>None\<close>
  when the stream ends or raises before any result message.
\<close>

fun blocks_before_result :: "stream_item list \<Rightarrow> nat option" where
  "blocks_before_result [] = None"
| "blocks_before_result (Raised e # ms) = None"
| "blocks_before_result (Received (ResultMessage is_error res) # ms) = Some 0"
| "blocks_before_result (Received (AssistantMessage bs) # ms) =
     (case blocks_before_result ms of None \<Rightarrow> None | Some n \<Rightarrow> Some (length bs + n))"
| "blocks_before_result (Received m # ms) = blocks_before_result ms"


section \<open>Chunks\<close>

text \<open>\<^verbatim>\<open>range(start, stop, step)\<close> for a positive step.\<close>

function py_range :: "nat \<Rightarrow> nat \<Rightarrow> nat \<Rightarrow> nat list" where
  "py_range start stop step =
     (if 0 < step \<and> start < stop then start # py_range (start + step) stop step else [])"
  by pat_completeness auto
termination
  by (relation "measure (\<lambda>(start, stop, step). stop - start)") auto

declare py_range.simps [simp del]

definition CHUNK_SIZE :: nat where
  "CHUNK_SIZE = 4000"

definition TELEGRAM_LIMIT :: nat where
  "TELEGRAM_LIMIT = 4096"

text \<open>\<^verbatim>\<open>[combined_text[i:i+CHUNK_SIZE] for i in range(0, len(combined_text), CHUNK_SIZE)]\<close>\<close>

definition split_chunks :: "pystr \<Rightarrow> pystr list" where
  "split_chunks combined_text =
     map (\<lambda>i. take CHUNK_SIZE (drop i combined_text)) (py_range 0 (length combined_text) CHUNK_SIZE)"


section \<open>The event log and the transcript: \<^verbatim>\<open>handle_text_message\<close>\<close>

text \<open>
  An entry of \<^verbatim>\<open>stream_state["events"]\<close>: a dictionary whose \<^verbatim>\<open>type\<close> is
  \<^verbatim>\<open>"tool"\<close> (with name, input, id and a status that is \<^verbatim>\<open>"running"\<close> or \<^verbatim>\<open>"done"\<close>)
  or \<^verbatim>\<open>"text"\<close> (with its content).
\<close>

datatype status = Running | Done

datatype event =
    Tool "pystr option" tool_input "pystr option" status
  | Text pystr

text \<open>
  What the handler does to the outside, in the order it does it: the two calls on the
  chat (\<^verbatim>\<open>reply_text\<close>, \<^verbatim>\<open>edit_text\<close> on a message that was sent) and the three
  operations on the keep-alive task. A message object is a number.
\<close>

type_synonym handle = nat

datatype parse_mode = Markdown | NoParseMode

datatype effect =
    ReplyText pystr parse_mode
  | EditText handle pystr parse_mode
  | CreateTypingTask
  | CancelTypingTask
  | AwaitTypingTask

text \<open>
  The chat answers a call by the message it delivered or by an exception (with its
  text). The answer may depend on everything done so far: a transport is a function of
  the history, whose last element is the call being answered.
\<close>

datatype reply = Delivered handle | Rejected pystr

type_synonym transport = "effect list \<Rightarrow> reply"

text \<open>
  The dictionary \<^verbatim>\<open>stream_state\<close>. The handlers reach it through \<^verbatim>\<open>nonlocal\<close>, so
  they see the dictionary bound last, the one of lines 281 to 288: it has no key
  \<^verbatim>\<open>last_update_time\<close> and no key \<^verbatim>\<open>current_message\<close>. A key that is absent is \<open>None\<close>.
  The lock is not modelled: one handler call runs at a time. The event loop's clock is
  a real number.
\<close>

record stream_state =
  last_update_time :: "real option"
  accumulated_text :: pystr
  current_message :: "handle option"
  events :: "event list"
  messages :: "handle list"
  message_contents :: "pystr list"

definition init_stream_state :: stream_state where
  "init_stream_state =
     \<lparr>last_update_time = None, accumulated_text = [], current_message = None,
      events = [], messages = [], message_contents = []\<rparr>"

type_synonym world = "stream_state \<times> effect list"

subsection \<open>Strings\<close>

text \<open>The characters that \<^verbatim>\<open>str.strip()\<close> removes.\<close>

definition isspace :: "nat \<Rightarrow> bool" where
  "isspace c = ((9 \<le> c \<and> c \<le> 13) \<or> (28 \<le> c \<and> c \<le> 32) \<or> c = 133 \<or> c = 160 \<or> c = 5760
     \<or> (8192 \<le> c \<and> c \<le> 8202) \<or> c = 8232 \<or> c = 8233 \<or> c = 8239 \<or> c = 8287 \<or> c = 12288)"

definition strip :: "pystr \<Rightarrow> pystr" where
  "strip s = rev (dropWhile isspace (rev (dropWhile isspace s)))"

text \<open>\<^verbatim>\<open>str(n)\<close> for a number that is not negative.\<close>

function str_of_nat :: "nat \<Rightarrow> pystr" where
  "str_of_nat n = (if n < 10 then [48 + n] else str_of_nat (n div 10) @ [48 + n mod 10])"
  by pat_completeness auto
termination
  by (relation "measure id") auto

declare str_of_nat.simps [simp del]

text \<open>\<^verbatim>\<open>sep.join(parts)\<close>\<close>

fun join :: "pystr \<Rightarrow> pystr list \<Rightarrow> pystr" where
  "join sep [] = []"
| "join sep [p] = p"
| "join sep (p # q # ps) = p @ sep @ join sep (q # ps)"

text \<open>\<^verbatim>\<open>p in s\<close> on strings.\<close>

fun contains :: "pystr \<Rightarrow> pystr \<Rightarrow> bool" where
  "contains p [] = (p = [])"
| "contains p (c # s) = (take (length p) (c # s) = p \<or> contains p s)"

text \<open>Truth of an optional string, and \<^verbatim>\<open>a or b\<close> on two of them.\<close>

fun truthy :: "pystr option \<Rightarrow> bool" where
  "truthy None = False"
| "truthy (Some s) = (s \<noteq> [])"

definition py_or :: "pystr option \<Rightarrow> pystr option \<Rightarrow> pystr option" where
  "py_or a b = (if truthy a then a else b)"

subsection \<open>The transcript\<close>

definition TOOL_ICONS :: "pystr \<rightharpoonup> pystr" where
  "TOOL_ICONS = [
     str ''Bash'' \<mapsto> [0x1F4BB],
     str ''Read'' \<mapsto> [0x1F4C4],
     str ''ReadFile'' \<mapsto> [0x1F4C4],
     str ''Write'' \<mapsto> [0x270F, 0xFE0F],
     str ''WriteFile'' \<mapsto> [0x270F, 0xFE0F],
     str ''Edit'' \<mapsto> [0x1F4DD],
     str ''EditFile'' \<mapsto> [0x1F4DD],
     str ''Glob'' \<mapsto> [0x1F50D],
     str ''LS'' \<mapsto> [0x1F4C2],
     str ''ls'' \<mapsto> [0x1F4C2]]"

definition type_icon :: "pystr option \<Rightarrow> pystr" where
  "type_icon tool_name =
     (case tool_name of None \<Rightarrow> [0x1F527]
      | Some n \<Rightarrow> (case TOOL_ICONS n of None \<Rightarrow> [0x1F527] | Some i \<Rightarrow> i))"

definition status_icon :: "status \<Rightarrow> pystr" where
  "status_icon s = (if s = Running then [0x23F3] else [0x2713])"

text \<open>The name as an f-string prints it.\<close>

definition format_name :: "pystr option \<Rightarrow> pystr" where
  "format_name tool_name = (case tool_name of None \<Rightarrow> str ''None'' | Some n \<Rightarrow> n)"

definition backticked :: "pystr \<Rightarrow> pystr" where
  "backticked s = str '': `'' @ s @ str ''`''"

text \<open>The argument preview of a tool line (\<^verbatim>\<open>details\<close>).\<close>

definition details :: "pystr option \<Rightarrow> tool_input \<Rightarrow> pystr" where
  "details tool_name tool_input =
     (if tool_name = Some (str ''Bash'') \<and> ti_command tool_input \<noteq> None then
        (let cmd = strip (the (ti_command tool_input));
             cmd = (if length cmd > 40 then take 37 cmd @ str ''...'' else cmd)
         in backticked cmd)
      else if tool_name \<in> Some ` {str ''Read'', str ''ReadFile'', str ''Write'', str ''WriteFile'',
                                  str ''Edit'', str ''EditFile''} then
        (let path = py_or (py_or (ti_path tool_input) (ti_file_path tool_input)) (ti_file tool_input);
             path = (if \<not> truthy path then
                       (case ti_paths tool_input of
                          Some (p # ps) \<Rightarrow>
                            Some (p @ (if length (p # ps) > 1
                                       then str '' (+'' @ str_of_nat (length (p # ps) - 1) @ str '')''
                                       else []))
                        | _ \<Rightarrow> path)
                     else path)
         in if truthy path then backticked (the path) else [])
      else if tool_name = Some (str ''Glob'') then
        (let pattern = py_or (ti_pattern tool_input) (ti_include tool_input)
         in if truthy pattern then backticked (the pattern) else [])
      else [])"

text \<open>The one-line summary of a tool entry.\<close>

definition tool_line :: "nat \<Rightarrow> pystr option \<Rightarrow> tool_input \<Rightarrow> status \<Rightarrow> pystr" where
  "tool_line tool_counter tool_name tool_input st =
     str_of_nat tool_counter @ str ''. '' @ status_icon st @ str '' '' @ type_icon tool_name
     @ str '' **'' @ format_name tool_name @ str ''**'' @ details tool_name tool_input"

text \<open>
  The loop that builds \<^verbatim>\<open>message_parts\<close>, on the counter of tools and the flag
  \<^verbatim>\<open>has_separator\<close>.
\<close>

fun message_parts :: "event list \<Rightarrow> nat \<Rightarrow> bool \<Rightarrow> pystr list" where
  "message_parts [] tool_counter has_separator = []"
| "message_parts (Tool n inp i s # es) tool_counter has_separator =
     tool_line (tool_counter + 1) n inp s # message_parts es (tool_counter + 1) False"
| "message_parts (Text c # es) tool_counter has_separator =
     (if tool_counter > 0 \<and> \<not> has_separator
      then ([10] @ str ''---'' @ [10]) # c # message_parts es tool_counter True
      else c # message_parts es tool_counter has_separator)"

definition combined_text :: "event list \<Rightarrow> pystr" where
  "combined_text es = join [10] (message_parts es 0 False)"

subsection \<open>Sending the chunks\<close>

text \<open>
  The loop \<^verbatim>\<open>for i, chunk in enumerate(chunks)\<close>. An exception of \<^verbatim>\<open>edit_text\<close> is
  passed over; an exception of \<^verbatim>\<open>reply_text\<close> leaves the loop (\<open>Some\<close> of its text).
\<close>

fun update_chunks :: "transport \<Rightarrow> nat \<Rightarrow> pystr list \<Rightarrow> world \<Rightarrow> pystr option \<times> world" where
  "update_chunks env i [] w = (None, w)"
| "update_chunks env i (chunk # chunks) (st, tr) =
     (if i < length (messages st) then
        (if i < length (message_contents st) \<and> message_contents st ! i = chunk then
           update_chunks env (i + 1) chunks (st, tr)
         else
           (let tr' = tr @ [EditText (messages st ! i) chunk Markdown] in
            case env tr' of
              Delivered h \<Rightarrow>
                update_chunks env (i + 1) chunks
                  (st\<lparr>message_contents :=
                        (if i < length (message_contents st) then (message_contents st)[i := chunk]
                         else message_contents st @ [chunk])\<rparr>, tr')
            | Rejected e \<Rightarrow> update_chunks env (i + 1) chunks (st, tr')))
      else
        (let tr' = tr @ [ReplyText chunk Markdown] in
         case env tr' of
           Delivered msg \<Rightarrow>
             update_chunks env (i + 1) chunks
               (st\<lparr>messages := messages st @ [msg],
                   message_contents := message_contents st @ [chunk]\<rparr>, tr')
         | Rejected e \<Rightarrow> (Some e, (st, tr'))))"

text \<open>\<^verbatim>\<open>_update_stream_message\<close>: one render pass.\<close>

definition update_stream_message :: "transport \<Rightarrow> world \<Rightarrow> pystr option \<times> world" where
  "update_stream_message env w =
     (if events (fst w) = [] then (None, w)
      else if strip (combined_text (events (fst w))) = [] then (None, w)
      else update_chunks env 0 (split_chunks (combined_text (events (fst w)))) w)"

subsection \<open>The stream handler\<close>

text \<open>The entry appended for a tool call.\<close>

definition tool_event :: "call_dict \<Rightarrow> event" where
  "tool_event tool_call =
     Tool (d_name tool_call)
          (case d_input tool_call of None \<Rightarrow> empty_input | Some inp \<Rightarrow> inp)
          (d_id tool_call) Running"

text \<open>
  The inner loop of the \<^verbatim>\<open>tool_result\<close> branch: going through the events from the
  first one, the first tool entry with the given id is set to done, and the loop breaks.
\<close>

fun finish_tool :: "pystr option \<Rightarrow> event list \<Rightarrow> event list" where
  "finish_tool tool_id [] = []"
| "finish_tool tool_id (Tool n inp i s # es) =
     (if i = tool_id then Tool n inp i Done # es else Tool n inp i s # finish_tool tool_id es)"
| "finish_tool tool_id (Text c # es) = Text c # finish_tool tool_id es"

fun finish_tools :: "call_dict list \<Rightarrow> event list \<Rightarrow> event list" where
  "finish_tools [] es = es"
| "finish_tools (result # results) es = finish_tools results (finish_tool (d_tool_use_id result) es)"

text \<open>The loop of the \<^verbatim>\<open>result\<close> branch.\<close>

fun complete_tool :: "event \<Rightarrow> event" where
  "complete_tool (Tool n inp i s) = Tool n inp i (if s = Running then Done else s)"
| "complete_tool (Text c) = Text c"

text \<open>A text update is merged into the last entry when that entry is a text.\<close>

definition merge_text :: "event list \<Rightarrow> pystr \<Rightarrow> event list" where
  "merge_text es new_content =
     (if es \<noteq> [] \<and> (case last es of Text c \<Rightarrow> True | _ \<Rightarrow> False)
      then butlast es @ [case last es of Text c \<Rightarrow> Text (c @ new_content) | e \<Rightarrow> e]
      else es @ [Text new_content])"

definition has_tool_calls :: "stream_update \<Rightarrow> bool" where
  "has_tool_calls u = (case tool_calls u of None \<Rightarrow> False | Some cs \<Rightarrow> cs \<noteq> [])"

definition the_tool_calls :: "stream_update \<Rightarrow> call_dict list" where
  "the_tool_calls u = (case tool_calls u of None \<Rightarrow> [] | Some cs \<Rightarrow> cs)"

definition the_content :: "stream_update \<Rightarrow> pystr" where
  "the_content u = (case content u of None \<Rightarrow> [] | Some c \<Rightarrow> c)"

definition with_events :: "(event list \<Rightarrow> event list) \<Rightarrow> world \<Rightarrow> world" where
  "with_events f w = ((fst w)\<lparr>events := f (events (fst w))\<rparr>, snd w)"

text \<open>\<^verbatim>\<open>str(KeyError('last_update_time'))\<close>\<close>

definition key_error_text :: pystr where
  "key_error_text = [39] @ str ''last_update_time'' @ [39]"

text \<open>
  The body of the \<^verbatim>\<open>try\<close> of \<^verbatim>\<open>stream_handler\<close> at the clock value \<open>current_time\<close>:
  the exception that leaves it, if any, and the world after. The throttle test compares
  real numbers where Python subtracts and compares floating-point numbers, so the two
  can differ within rounding; the test is reached only when the key \<^verbatim>\<open>last_update_time\<close>
  is present, which it never is on the dictionary a turn starts with.
\<close>

definition stream_handler_try :: "transport \<Rightarrow> real \<Rightarrow> stream_update \<Rightarrow> world \<Rightarrow> pystr option \<times> world" where
  "stream_handler_try env current_time update_obj w =
     (if utype update_obj = ''assistant'' \<and> has_tool_calls update_obj then
        update_stream_message env
          (with_events (\<lambda>es. es @ map tool_event (the_tool_calls update_obj)) w)
      else if utype update_obj = ''tool_result'' \<and> has_tool_calls update_obj then
        update_stream_message env (with_events (finish_tools (the_tool_calls update_obj)) w)
      else if utype update_obj = ''result'' then
        update_stream_message env (with_events (map complete_tool) w)
      else if utype update_obj = ''assistant'' \<and> truthy (content update_obj) then
        (let w1 = with_events (\<lambda>es. merge_text es (the_content update_obj)) w in
         case last_update_time (fst w1) of
           None \<Rightarrow> (Some key_error_text, w1)
         | Some t \<Rightarrow>
             if current_time - t \<ge> 0.5 \<or> length (the_content update_obj) > 50 then
               (case update_stream_message env w1 of
                  (None, (st2, tr2)) \<Rightarrow> (None, (st2\<lparr>last_update_time := Some current_time\<rparr>, tr2))
                | (Some e, w2) \<Rightarrow> (Some e, w2))
             else (None, w1))
      else (None, w))"

definition cant_parse_entities :: pystr where
  "cant_parse_entities = str ''Can'' @ [39] @ str ''t parse entities''"

text \<open>The \<^verbatim>\<open>except\<close> clause of \<^verbatim>\<open>stream_handler\<close>, on the text of the exception.\<close>

definition stream_handler_except :: "transport \<Rightarrow> pystr \<Rightarrow> world \<Rightarrow> world" where
  "stream_handler_except env e w =
     (if contains cant_parse_entities e then
        (let content_for_retry = accumulated_text (fst w) in
         case current_message (fst w) of
           None \<Rightarrow>
             (let tr' = snd w @ [ReplyText content_for_retry NoParseMode] in
              case env tr' of
                Delivered msg \<Rightarrow> ((fst w)\<lparr>current_message := Some msg\<rparr>, tr')
              | Rejected e' \<Rightarrow> (fst w, tr'))
         | Some msg \<Rightarrow> (fst w, snd w @ [EditText msg content_for_retry NoParseMode]))
      else w)"

definition stream_handler :: "transport \<Rightarrow> real \<Rightarrow> stream_update \<Rightarrow> world \<Rightarrow> world" where
  "stream_handler env current_time update_obj w =
     (case stream_handler_try env current_time update_obj w of
        (None, w') \<Rightarrow> w'
      | (Some e, w') \<Rightarrow> stream_handler_except env e w')"

text \<open>What the four branches of the handler make of the event log.\<close>

definition events_after :: "stream_update \<Rightarrow> event list \<Rightarrow> event list" where
  "events_after u es =
     (if utype u = ''assistant'' \<and> has_tool_calls u then es @ map tool_event (the_tool_calls u)
      else if utype u = ''tool_result'' \<and> has_tool_calls u then finish_tools (the_tool_calls u) es
      else if utype u = ''result'' then map complete_tool es
      else if utype u = ''assistant'' \<and> truthy (content u) then merge_text es (the_content u)
      else es)"

text \<open>The handler on the updates of a turn, each with the clock value at its arrival.\<close>

fun stream_handlers :: "transport \<Rightarrow> (real \<times> stream_update) list \<Rightarrow> world \<Rightarrow> world" where
  "stream_handlers env [] w = w"
| "stream_handlers env ((t, u) # us) w = stream_handlers env us (stream_handler env t u w)"

text \<open>The tool entries that carry a given id.\<close>

fun tool_with_id :: "pystr option \<Rightarrow> event \<Rightarrow> bool" where
  "tool_with_id tool_id (Tool n inp i s) = (i = tool_id)"
| "tool_with_id tool_id (Text c) = False"

text \<open>The calls on the chat among the effects.\<close>

fun is_chat_call :: "effect \<Rightarrow> bool" where
  "is_chat_call (ReplyText c m) = True"
| "is_chat_call (EditText h c m) = True"
| "is_chat_call e = False"

text \<open>
  Two chats: one delivers every call, and numbers the message by the position of the
  call in the history; the other delivers the first call only and rejects every later
  one.
\<close>

definition always_delivers :: transport where
  "always_delivers history = Delivered (length history)"

definition delivers_once :: transport where
  "delivers_once history =
     (if length history = 1 then Delivered 1 else Rejected (str ''Message is not modified''))"

subsection \<open>The turn\<close>

text \<open>
  How \<^verbatim>\<open>claude_integration.run_command\<close> ends: it returns a response, or it raises
  \<^verbatim>\<open>ClaudeToolValidationError\<close> or another exception (with the exception's text). Its
  code is not part of the sources at hand; the model takes what it does as given: the
  updates it hands to \<^verbatim>\<open>on_stream\<close> while it runs, and how it ends.
\<close>

datatype run_outcome = Returned | ToolValidationError pystr | OtherException pystr

text \<open>
  \<^verbatim>\<open>handle_text_message\<close> from the creation of the typing task to the end of the
  \<^verbatim>\<open>finally\<close> clause (lines 412 to 475): the task is created, the command runs and
  hands its updates to the stream handler, and in every case the \<^verbatim>\<open>finally\<close> clause
  cancels the task and awaits it. The result is the world after the clause and the error
  message set by an \<^verbatim>\<open>except\<close> clause, if one ran. The calls of the typing task itself
  run concurrently and are not in the log.
\<close>

definition unexpected_error_text :: "pystr \<Rightarrow> pystr" where
  "unexpected_error_text e =
     [0x274C] @ str '' **Error**'' @ [10, 10] @ str ''An unexpected error occurred: '' @ e"

definition run_turn ::
  "transport \<Rightarrow> (real \<times> stream_update) list \<Rightarrow> run_outcome \<Rightarrow> world \<times> pystr option" where
  "run_turn env deliveries outcome =
     (let w0 = (init_stream_state, [CreateTypingTask]);
          w1 = stream_handlers env deliveries w0;
          formatted = (case outcome of
                         Returned \<Rightarrow> None
                       | ToolValidationError e \<Rightarrow> Some e
                       | OtherException e \<Rightarrow> Some (unexpected_error_text e));
          w2 = (fst w1, snd w1 @ [CancelTypingTask, AwaitTypingTask])
      in (w2, formatted))"

subsection \<open>The response after the turn\<close>












section \<open>Properties of the chunk split\<close>

lemma ceil_step:
  assumes "0 < step" "start < stop"
  shows "(stop - start + step - 1) div step = Suc ((stop - (start + step) + step - 1) div step)"
proof (cases "step \<le> stop - start")
  case True
  define a where "a = stop - (start + step) + step - 1"
  have "stop - start + step - 1 = a + step"
    unfolding a_def using True assms by linarith
  moreover have "(a + step) div step = Suc (a div step)"
    using assms(1) by simp
  ultimately show ?thesis unfolding a_def by (simp only:)
next
  case False
  then have a: "stop - (start + step) = 0" by simp
  have b: "(stop - start + step - 1) div step = 1"
  proof (rule div_nat_eqI)
    show "step * 1 \<le> stop - start + step - 1" using assms by linarith
    show "stop - start + step - 1 < step * Suc 1" using False assms by simp
  qed
  have "(0 + step - 1) div step = 0" using assms(1) by simp
  then show ?thesis unfolding a b by simp
qed

lemma upt_0_Suc_map: "[0..<Suc m] = 0 # map Suc [0..<m]"
  by (simp only: upt_conv_Cons[OF zero_less_Suc] map_Suc_upt)

lemma py_range_eq:
  "0 < step \<Longrightarrow>
   py_range start stop step = map (\<lambda>k. start + k * step) [0..<(stop - start + step - 1) div step]"
proof (induction start stop step rule: py_range.induct)
  case (1 start stop step)
  show ?case
  proof (cases "start < stop")
    case True
    let ?m = "(stop - (start + step) + step - 1) div step"
    have IH: "py_range (start + step) stop step = map (\<lambda>k. start + step + k * step) [0..<?m]"
      using "1.IH" "1.prems" True by blast
    have n: "(stop - start + step - 1) div step = Suc ?m"
      using ceil_step[OF "1.prems" True] .
    have "map (\<lambda>k. start + k * step) [0..<Suc ?m] = start # map (\<lambda>k. start + step + k * step) [0..<?m]"
      unfolding upt_0_Suc_map by (simp add: comp_def add.assoc)
    moreover have "py_range start stop step = start # py_range (start + step) stop step"
      using True "1.prems" by (subst py_range.simps) simp
    ultimately show ?thesis using IH n by (simp only:)
  next
    case False
    then have "(stop - start + step - 1) div step = 0" using "1.prems" by simp
    moreover have "py_range start stop step = []"
      using False by (subst py_range.simps) simp
    ultimately show ?thesis by simp
  qed
qed


lemma concat_windows:
  "concat (map (\<lambda>k. take s (drop (k * s) t)) [0..<m]) = take (m * s) t"
proof (induction m)
  case 0
  show ?case by simp
next
  case (Suc m)
  have "take (m * s) t @ take s (drop (m * s) t) = take (m * s + s) t"
    by (simp add: take_add)
  then show ?case using Suc by (simp add: add.commute)
qed

lemma ceil_div_nat:
  assumes "0 < d"
  shows "\<lceil>real n / real d\<rceil> = int ((n + d - 1) div d)"
proof (rule ceiling_unique)
  let ?q = "(n + d - 1) div d"
  have "n \<le> ?q * d"
  proof -
    have "n + d - 1 < (Suc ?q) * d"
      using assms by (metis dividend_less_div_times mult.commute mult_Suc add.commute)
    then show ?thesis using assms by simp
  qed
  then have "real n \<le> real ?q * real d" by (metis of_nat_le_iff of_nat_mult)
  then show "real n / real d \<le> of_int (int ?q)" using assms by (simp add: divide_le_eq)
  have "?q * d \<le> n + d - 1" by simp
  then have "?q * d < n + d" using assms by linarith
  then have "real ?q * real d < real n + real d" by (metis of_nat_less_iff of_nat_mult of_nat_add)
  then show "of_int (int ?q) - 1 < real n / real d" using assms by (simp add: less_divide_eq algebra_simps)
qed

lemma split_chunks_eq:
  "split_chunks t = map (\<lambda>k. take CHUNK_SIZE (drop (k * CHUNK_SIZE) t)) [0..<(length t + CHUNK_SIZE - 1) div CHUNK_SIZE]"
proof -
  have "0 < CHUNK_SIZE" by (simp add: CHUNK_SIZE_def)
  from py_range_eq[OF this, of 0 "length t"] show ?thesis
    by (simp add: split_chunks_def comp_def)
qed

text \<open>
  Claim C5. The split of a combined text of length \<open>L\<close> has \<open>\<lceil>L / 4000\<rceil>\<close> chunks; chunk
  \<open>i\<close> is the slice of the text from \<open>i * 4000\<close> to \<open>(i + 1) * 4000\<close>; no chunk is longer
  than the chunk size of 4000, which is below the transport's 4096; the chunks
  concatenated in order are the text.
\<close>

theorem split_chunks_spec:
  "int (length (split_chunks t)) = \<lceil>real (length t) / real CHUNK_SIZE\<rceil>
   \<and> (\<forall>i < length (split_chunks t). split_chunks t ! i = take CHUNK_SIZE (drop (i * CHUNK_SIZE) t))
   \<and> (\<forall>c \<in> set (split_chunks t). length c \<le> CHUNK_SIZE)
   \<and> concat (split_chunks t) = t
   \<and> CHUNK_SIZE = 4000 \<and> CHUNK_SIZE < TELEGRAM_LIMIT"
proof -
  let ?m = "(length t + CHUNK_SIZE - 1) div CHUNK_SIZE"
  have pos: "0 < CHUNK_SIZE" by (simp add: CHUNK_SIZE_def)
  have len: "length (split_chunks t) = ?m" by (simp add: split_chunks_eq)
  have a: "int (length (split_chunks t)) = \<lceil>real (length t) / real CHUNK_SIZE\<rceil>"
    using ceil_div_nat[OF pos, of "length t"] len by simp
  have b: "\<forall>i < length (split_chunks t). split_chunks t ! i = take CHUNK_SIZE (drop (i * CHUNK_SIZE) t)"
    by (simp add: split_chunks_eq)
  have c: "\<forall>c \<in> set (split_chunks t). length c \<le> CHUNK_SIZE"
    by (auto simp: split_chunks_eq)
  have "length t \<le> ?m * CHUNK_SIZE"
  proof -
    have "length t + CHUNK_SIZE - 1 < (Suc ?m) * CHUNK_SIZE"
      using pos by (metis dividend_less_div_times mult.commute mult_Suc add.commute)
    then show ?thesis using pos by simp
  qed
  then have d: "concat (split_chunks t) = t"
    by (simp add: split_chunks_eq concat_windows)
  have e: "CHUNK_SIZE = 4000 \<and> CHUNK_SIZE < TELEGRAM_LIMIT"
    by (simp add: CHUNK_SIZE_def TELEGRAM_LIMIT_def)
  from a b c d e show ?thesis by blast
qed

text \<open>A text of 4001 characters: two chunks, of 4000 characters and of one.\<close>

theorem split_chunks_spec_witness:
  "length (split_chunks (replicate 4001 (120::nat))) = 2
   \<and> split_chunks (replicate 4001 120) ! 1 = [120]
   \<and> length (split_chunks (replicate 4001 120) ! 0) = 4000"
proof -
  let ?t = "replicate 4001 (120::nat)"
  have l: "int (length (split_chunks ?t)) = 2"
    using split_chunks_spec[of ?t] by (simp add: CHUNK_SIZE_def)
  then have l2: "length (split_chunks ?t) = 2" by simp
  have "split_chunks ?t ! 1 = take CHUNK_SIZE (drop (1 * CHUNK_SIZE) ?t)"
    using split_chunks_spec[of ?t] l2 by simp
  then have n1: "split_chunks ?t ! 1 = [120]" by (simp add: CHUNK_SIZE_def)
  have "split_chunks ?t ! 0 \<in> set (split_chunks ?t)" using l2 by simp
  then have "length (split_chunks ?t ! 0) \<le> CHUNK_SIZE" using split_chunks_spec[of ?t] by blast
  moreover have "split_chunks ?t ! 0 = take CHUNK_SIZE (drop (0 * CHUNK_SIZE) ?t)"
    using split_chunks_spec[of ?t] l2 by simp
  then have "length (split_chunks ?t ! 0) = 4000" by (simp add: CHUNK_SIZE_def)
  ultimately show ?thesis using l2 n1 by simp
qed


section \<open>Properties of the block tracker\<close>

lemma process_blocks_append:
  "process_blocks st cbi (xs @ ys) =
     (case process_blocks st cbi xs of (o1, st1, c1) \<Rightarrow>
        (case process_blocks st1 c1 ys of (o2, r) \<Rightarrow> (o1 @ o2, r)))"
  by (induction xs arbitrary: st cbi) (auto split: prod.splits)

lemma process_blocks_skip:
  "cbi + length bs \<le> total_blocks_seen st \<Longrightarrow> process_blocks st cbi bs = ([], st, cbi + length bs)"
  by (induction bs arbitrary: cbi) auto

lemma process_block_mono:
  "process_block st cbi b = (out, st', cbi') \<Longrightarrow>
     total_blocks_seen st \<le> total_blocks_seen st' \<and> cbi \<le> cbi'
     \<and> (cbi' = cbi + 1 \<or> total_blocks_seen st \<le> cbi')"
  by (auto split: if_splits block.splits simp: Let_def)

lemma process_blocks_mono:
  "process_blocks st cbi bs = (out, st', cbi') \<Longrightarrow>
     total_blocks_seen st \<le> total_blocks_seen st' \<and> cbi \<le> cbi'
     \<and> (cbi' = cbi + length bs \<or> total_blocks_seen st \<le> cbi')"
proof (induction bs arbitrary: st cbi out st' cbi')
  case Nil
  then show ?case by simp
next
  case (Cons b bs)
  obtain o1 st1 c1 where s1: "process_block st cbi b = (o1, st1, c1)"
    by (metis prod_cases3)
  obtain o2 st2 c2 where s2: "process_blocks st1 c1 bs = (o2, st2, c2)"
    by (metis prod_cases3)
  from Cons.prems s1 s2 have e: "st' = st2" "cbi' = c2" by simp_all
  note m1 = process_block_mono[OF s1]
  note m2 = Cons.IH[OF s2]
  from m1 m2 show ?case unfolding e by auto
qed

lemma text_blocks_chain:
  "total_blocks_seen st \<le> cbi \<Longrightarrow> grows (current_text_content st) ts \<Longrightarrow>
   process_blocks st cbi (map TextBlock ts) = (out, st', cbi') \<Longrightarrow>
     current_text_content st @ emitted_text out = last (current_text_content st # ts)
     \<and> current_text_content st' = last (current_text_content st # ts)
     \<and> total_blocks_seen st' = total_blocks_seen st \<and> cbi' = cbi + length ts"
proof (induction ts arbitrary: st cbi out st' cbi')
  case Nil
  then show ?case by simp
next
  case (Cons t ts)
  let ?c = "current_text_content st"
  from Cons.prems(2) have pre: "take (length ?c) t = ?c" and g: "grows t ts"
    by (simp_all add: startswith_def)
  have split: "?c @ drop (length ?c) t = t"
    using pre by (metis append_take_drop_id)
  show ?case
  proof (cases "drop (length ?c) t = []")
    case True
    then have eq: "t = ?c" using split by simp
    from Cons.prems(1,3) True
    have "process_blocks st (cbi + 1) (map TextBlock ts) = (out, st', cbi')"
      by (simp add: Let_def)
    moreover have "grows ?c ts" using g eq by simp
    ultimately have "?c @ emitted_text out = last (?c # ts)
       \<and> current_text_content st' = last (?c # ts)
       \<and> total_blocks_seen st' = total_blocks_seen st \<and> cbi' = cbi + 1 + length ts"
      using Cons.IH[of st "cbi + 1" out st' cbi'] Cons.prems(1) by simp
    then show ?thesis using eq by simp
  next
    case False
    let ?st1 = "st\<lparr>current_text_content := t\<rparr>"
    obtain o2 where r: "process_blocks ?st1 (cbi + 1) (map TextBlock ts) = (o2, st', cbi')"
      and o: "out = text_update (drop (length ?c) t) # o2"
      using Cons.prems(1,3) False by (auto simp: Let_def split: prod.splits)
    have "t @ emitted_text o2 = last (t # ts)
       \<and> current_text_content st' = last (t # ts)
       \<and> total_blocks_seen st' = total_blocks_seen st \<and> cbi' = cbi + 1 + length ts"
      using Cons.IH[of ?st1 "cbi + 1" o2 st' cbi'] r g Cons.prems(1) by simp
    moreover have "emitted_text out = drop (length ?c) t @ emitted_text o2"
      using o by (simp add: text_update_def)
    ultimately show ?thesis using split by (simp add: append_assoc[symmetric] del: append_assoc)
  qed
qed

lemma receive_assistant_messages:
  "receive_messages st cbi (assistant_messages bss @ rest) =
     (case process_blocks st cbi (concat bss) of (o1, st1, c1) \<Rightarrow>
        (case receive_messages st1 c1 rest of (o2, r) \<Rightarrow> (o1 @ o2, r)))"
proof (induction bss arbitrary: st cbi)
  case Nil
  then show ?case by (simp add: assistant_messages_def)
next
  case (Cons bs bss)
  have "assistant_messages (bs # bss) = Received (AssistantMessage bs) # assistant_messages bss"
    by (simp add: assistant_messages_def)
  then show ?case using Cons.IH
    by (simp add: process_blocks_append split: prod.splits)
qed

lemma emitted_text_append: "emitted_text (xs @ ys) = emitted_text xs @ emitted_text ys"
  by (induction xs) auto

lemma ends_turn_no_text: "ends_turn tail \<Longrightarrow> emitted_text (fst (receive_messages st cbi tail)) = []"
proof (cases tail)
  case Nil
  then show ?thesis by simp
next
  case (Cons m ms)
  assume e: "ends_turn tail"
  show ?thesis
  proof (cases m)
    case (Raised x)
    then show ?thesis using Cons by (simp add: error_update_def)
  next
    case (Received msg)
    then show ?thesis using Cons e
      by (cases msg) (simp_all add: error_update_def result_update_def)
  qed
qed


lemma snd_receive_user:
  "snd (receive_messages st cbi (Received (UserMessage bs) # ms)) = snd (receive_messages st cbi ms)"
  by (simp split: prod.splits)

lemma snd_receive_assistant:
  "process_blocks st cbi bs = (o1, st1, c1) \<Longrightarrow>
   snd (receive_messages st cbi (Received (AssistantMessage bs) # ms)) = snd (receive_messages st1 c1 ms)"
  by (simp split: prod.splits)

lemma receive_messages_mono:
  "t0 \<le> total_blocks_seen st \<Longrightarrow>
   (case blocks_before_result items of None \<Rightarrow> True | Some n \<Rightarrow> t0 \<le> cbi + n \<or> t0 \<le> cbi) \<Longrightarrow>
   t0 \<le> total_blocks_seen (snd (receive_messages st cbi items))"
proof (induction items arbitrary: st cbi)
  case Nil
  then show ?case by simp
next
  case (Cons m ms)
  show ?case
  proof (cases m)
    case (Raised e)
    then show ?thesis using Cons.prems by simp
  next
    case (Received msg)
    show ?thesis
    proof (cases msg)
      case (AssistantMessage bs)
      obtain o1 st1 c1 where p: "process_blocks st cbi bs = (o1, st1, c1)"
        by (metis prod_cases3)
      note m = process_blocks_mono[OF p]
      have a: "t0 \<le> total_blocks_seen st1" using m Cons.prems(1) by simp
      have b: "case blocks_before_result ms of None \<Rightarrow> True | Some n \<Rightarrow> t0 \<le> c1 + n \<or> t0 \<le> c1"
        using Cons.prems m Received AssistantMessage by (auto split: option.splits)
      from Cons.IH[OF a b] show ?thesis
        unfolding Received AssistantMessage snd_receive_assistant[OF p] .
    next
      case (UserMessage bs)
      have "case blocks_before_result ms of None \<Rightarrow> True | Some n \<Rightarrow> t0 \<le> cbi + n \<or> t0 \<le> cbi"
        using Cons.prems(2) Received UserMessage by simp
      from Cons.IH[OF Cons.prems(1) this] show ?thesis
        unfolding Received UserMessage snd_receive_user .
    next
      case SystemMessage
      then show ?thesis using Cons Received by simp
    next
      case (ResultMessage x41 x42)
      then show ?thesis using Cons.prems Received by auto
    qed
  qed
qed

lemma session_get_after:
  "session_get (snd (stream_message states sid None items)) sid
     = snd (receive_messages (session_get states sid) 0 items)"
  by (simp add: stream_message_def session_get_def split: prod.splits)

lemma emitted_text_stream:
  "emitted_text (fst (stream_message states sid None items))
     = emitted_text (fst (receive_messages (session_get states sid) 0 items))"
  by (simp add: stream_message_def progress_update_def split: prod.splits)

lemma text_blocks_from_start:
  assumes "grows (current_text_content st) (drop (total_blocks_seen st) ts)"
  shows "current_text_content st @ emitted_text (fst (process_blocks st 0 (map TextBlock ts)))
           = last (current_text_content st # drop (total_blocks_seen st) ts)"
proof -
  let ?k = "total_blocks_seen st"
  let ?pre = "map TextBlock (take ?k ts)" and ?post = "map TextBlock (drop ?k ts)"
  have sp: "map TextBlock ts = ?pre @ ?post"
    by (metis append_take_drop_id map_append)
  have sk: "process_blocks st 0 ?pre = ([], st, length ?pre)"
    using process_blocks_skip[of 0 ?pre st] by simp
  have eq: "process_blocks st 0 (map TextBlock ts) = process_blocks st (length ?pre) ?post"
    by (subst sp, simp only: process_blocks_append sk) (simp split: prod.splits)
  show ?thesis
  proof (cases "?k \<le> length ts")
    case True
    then have l: "length ?pre = ?k" by simp
    obtain out st' cbi' where p: "process_blocks st ?k ?post = (out, st', cbi')"
      by (metis prod_cases3)
    from text_blocks_chain[OF _ assms p] show ?thesis using eq l p by simp
  next
    case False
    then have "drop ?k ts = []" by simp
    then show ?thesis using eq by simp
  qed
qed

text \<open>
  Claim C1, as amended. A turn whose stream delivers text blocks only: the blocks below
  \<^verbatim>\<open>total_blocks_seen\<close> are skipped as a replay; when each of the other blocks extends
  the one before it, and the first of them extends the stored \<^verbatim>\<open>current_text_content\<close>,
  the stored text followed by the deltas of the turn, in the order they were yielded, is
  the text of the last block. Each delta is the block's text past the length of the
  stored text. On the state of a new session nothing is skipped and the stored text is
  empty: the deltas alone make up the last block's text.
\<close>

theorem text_deltas_concatenate:
  assumes "concat bss = map TextBlock ts"
    and "ends_turn tail"
    and "grows (current_text_content (session_get states sid))
               (drop (total_blocks_seen (session_get states sid)) ts)"
  shows "current_text_content (session_get states sid)
           @ emitted_text (fst (stream_message states sid None (assistant_messages bss @ tail)))
         = last (current_text_content (session_get states sid)
                 # drop (total_blocks_seen (session_get states sid)) ts)
       \<and> fst (process_block st cbi (TextBlock t))
         = (if cbi < total_blocks_seen st \<or> drop (length (current_text_content st)) t = [] then []
            else [text_update (drop (length (current_text_content st)) t)])"
proof -
  have delta: "fst (process_block st cbi (TextBlock t))
         = (if cbi < total_blocks_seen st \<or> drop (length (current_text_content st)) t = [] then []
            else [text_update (drop (length (current_text_content st)) t)])"
    by (simp add: Let_def)
  let ?st = "session_get states sid"
  obtain o1 st1 c1 where p: "process_blocks ?st 0 (map TextBlock ts) = (o1, st1, c1)"
    by (metis prod_cases3)
  have "emitted_text (fst (receive_messages ?st 0 (assistant_messages bss @ tail)))
          = emitted_text o1 @ emitted_text (fst (receive_messages st1 c1 tail))"
    by (simp add: receive_assistant_messages assms(1) p emitted_text_append split: prod.splits)
  also have "\<dots> = emitted_text o1"
    using ends_turn_no_text[OF assms(2)] by simp
  finally have "emitted_text (fst (stream_message states sid None (assistant_messages bss @ tail)))
                  = emitted_text (fst (process_blocks ?st 0 (map TextBlock ts)))"
    using p by (simp add: emitted_text_stream)
  then have "current_text_content ?st
           @ emitted_text (fst (stream_message states sid None (assistant_messages bss @ tail)))
         = last (current_text_content ?st # drop (total_blocks_seen ?st) ts)"
    using text_blocks_from_start[OF assms(3)] by simp
  then show ?thesis using delta by (rule conjI)
qed

text \<open>A new session that receives \<open>Hel\<close> and then \<open>Hello\<close>.\<close>

theorem text_deltas_concatenate_witness:
  "emitted_text (fst (stream_message Map.empty (str ''s'') None
      (assistant_messages [[TextBlock (str ''Hel'')], [TextBlock (str ''Hello'')]]
       @ [Received (ResultMessage False [])])))
   = str ''Hello''"
  using text_deltas_concatenate[of "[[TextBlock (str ''Hel'')], [TextBlock (str ''Hello'')]]"
      "[str ''Hel'', str ''Hello'']" "[Received (ResultMessage False [])]" Map.empty "str ''s''"]
  by (simp add: session_get_def fresh_state_def startswith_def del: process_block.simps)

text \<open>
  The claim as it is written fails on the second turn of a session: the first turn
  received \<open>Hello\<close>; the second turn receives \<open>Hello\<close> again and then \<open>Hello world\<close>, a
  sequence that grows, and yields the delta \<open> world\<close> only.
\<close>

theorem text_deltas_replay_counterexample:
  "grows [] [str ''Hello'', str ''Hello world'']
   \<and> emitted_text (fst (stream_message
        (snd (stream_message Map.empty (str ''s'') None
               [Received (AssistantMessage [TextBlock (str ''Hello'')]),
                Received (ResultMessage False [])]))
        (str ''s'') None
        [Received (AssistantMessage [TextBlock (str ''Hello'')]),
         Received (AssistantMessage [TextBlock (str ''Hello world'')]),
         Received (ResultMessage False [])]))
     = str '' world''
   \<and> str '' world'' \<noteq> str ''Hello world''"
  by (simp add: stream_message_def session_get_def fresh_state_def startswith_def
        text_update_def result_update_def progress_update_def Let_def)







text \<open>
  Two behaviours of the tracker that the statement above does not speak of. A block
  that is neither a text nor a tool use advances the cursor only while blocks are
  skipped: after a turn over a thinking block and a tool call the counter is 1, and the
  replay yields the tool call again. The stored text outlives the result message: after a
  turn that ends in the text \<open>b\<close>, the text \<open>new\<close> of the next block is yielded from its
  second character on.
\<close>

lemma thinking_block_not_counted:
  "total_blocks_seen (session_get
      (snd (stream_message Map.empty (str ''s'') None
              [Received (AssistantMessage [ThinkingBlock (str ''hm''),
                                           ToolUseBlock (str ''1'') (str ''X'') empty_input]),
               Received (ResultMessage False [])])) (str ''s'')) = 1
   \<and> fst (stream_message
         (snd (stream_message Map.empty (str ''s'') None
                 [Received (AssistantMessage [ThinkingBlock (str ''hm''),
                                              ToolUseBlock (str ''1'') (str ''X'') empty_input]),
                  Received (ResultMessage False [])]))
         (str ''s'') None
         [Received (AssistantMessage [ThinkingBlock (str ''hm''),
                                      ToolUseBlock (str ''1'') (str ''X'') empty_input])])
     = [progress_update (str ''Starting Claude Agent...'') 0,
        tool_update [tool_call_dict (str ''X'') empty_input (str ''1'')]]"
  by (simp add: stream_message_def session_get_def fresh_state_def Let_def)

lemma stored_text_outlives_turn:
  "fst (stream_message
         (snd (stream_message Map.empty (str ''s'') None
                 [Received (AssistantMessage [TextBlock (str ''b'')]),
                  Received (ResultMessage False [])]))
         (str ''s'') None
         [Received (AssistantMessage [TextBlock (str ''b'')]),
          Received (AssistantMessage [TextBlock (str ''new'')])])
     = [progress_update (str ''Starting Claude Agent...'') 0, text_update (str ''ew'')]"
  by (simp add: stream_message_def session_get_def fresh_state_def Let_def)

text \<open>
  Claim C8, as amended. Skipping a replayed block, surfacing a text block and surfacing
  a tool block never lower \<^verbatim>\<open>total_blocks_seen\<close>. A result message sets it to the cursor,
  whatever it was. Over a whole turn the counter is therefore not lowered when the
  stream ends or raises before a result message, or when at least as many blocks as the
  counter's value at the start of the turn are received before the result message.
\<close>

theorem total_blocks_seen_steps:
  "total_blocks_seen st \<le> total_blocks_seen (fst (snd (process_block st cbi b)))
   \<and> total_blocks_seen (snd (receive_messages st cbi (Received (ResultMessage is_error res) # ms))) = cbi
   \<and> ((case blocks_before_result items of None \<Rightarrow> True
        | Some n \<Rightarrow> total_blocks_seen (session_get states sid) \<le> n)
      \<longrightarrow> total_blocks_seen (session_get states sid)
          \<le> total_blocks_seen (session_get (snd (stream_message states sid None items)) sid))"
proof -
  have a: "total_blocks_seen st \<le> total_blocks_seen (fst (snd (process_block st cbi b)))"
    using process_block_mono[of st cbi b] by (metis fst_conv snd_conv prod_cases3)
  have b: "total_blocks_seen (snd (receive_messages st cbi (Received (ResultMessage is_error res) # ms))) = cbi"
    by simp
  have c: "(case blocks_before_result items of None \<Rightarrow> True
        | Some n \<Rightarrow> total_blocks_seen (session_get states sid) \<le> n)
      \<longrightarrow> total_blocks_seen (session_get states sid)
          \<le> total_blocks_seen (session_get (snd (stream_message states sid None items)) sid)"
  proof
    assume h: "case blocks_before_result items of None \<Rightarrow> True
        | Some n \<Rightarrow> total_blocks_seen (session_get states sid) \<le> n"
    have "case blocks_before_result items of None \<Rightarrow> True
        | Some n \<Rightarrow> total_blocks_seen (session_get states sid) \<le> 0 + n
                   \<or> total_blocks_seen (session_get states sid) \<le> 0"
      using h by (auto split: option.splits)
    from receive_messages_mono[OF le_refl this]
    show "total_blocks_seen (session_get states sid)
          \<le> total_blocks_seen (session_get (snd (stream_message states sid None items)) sid)"
      by (simp only: session_get_after)
  qed
  from a b c show ?thesis by blast
qed

text \<open>
  A session whose counter stands at 1 receives two blocks and the result message: the
  first block is skipped, the second is surfaced, the counter ends at 2.
\<close>

theorem total_blocks_seen_steps_witness:
  "total_blocks_seen (session_get
      (snd (stream_message [str ''s'' \<mapsto> \<lparr>total_blocks_seen = 1, current_text_content = []\<rparr>]
              (str ''s'') None
              [Received (AssistantMessage [TextBlock (str ''a''), TextBlock (str ''b'')]),
               Received (ResultMessage False [])]))
      (str ''s'')) = 2
   \<and> (1::nat) \<le> 2"
proof -
  let ?states = "[str ''s'' \<mapsto> \<lparr>total_blocks_seen = 1, current_text_content = []\<rparr>]"
  let ?items = "[Received (AssistantMessage [TextBlock (str ''a''), TextBlock (str ''b'')]),
               Received (ResultMessage False [])]"
  have "total_blocks_seen (session_get ?states (str ''s''))
          \<le> total_blocks_seen (session_get (snd (stream_message ?states (str ''s'') None ?items)) (str ''s''))"
    using total_blocks_seen_steps[where items = ?items and states = ?states and sid = "str ''s''"]
    by (simp add: session_get_def del: process_block.simps receive_messages.simps)
  moreover have "total_blocks_seen (session_get
      (snd (stream_message ?states (str ''s'') None ?items)) (str ''s'')) = 2"
    by (simp add: stream_message_def session_get_def Let_def)
  ultimately show ?thesis by simp
qed

text \<open>
  The claim as it is written fails at the result message: the first turn of a session
  receives a tool block and a text block and leaves the counter at 2; the second turn
  receives one block before its result message, and the counter is set to 1.
\<close>

theorem total_blocks_seen_lowered_counterexample:
  "total_blocks_seen (session_get
      (snd (stream_message Map.empty (str ''s'') None
              [Received (AssistantMessage [ToolUseBlock (str ''1'') (str ''X'') empty_input,
                                           TextBlock (str ''done'')]),
               Received (ResultMessage False [])]))
      (str ''s'')) = 2
   \<and> total_blocks_seen (session_get
      (snd (stream_message
              (snd (stream_message Map.empty (str ''s'') None
                      [Received (AssistantMessage [ToolUseBlock (str ''1'') (str ''X'') empty_input,
                                                   TextBlock (str ''done'')]),
                       Received (ResultMessage False [])]))
              (str ''s'') None
              [Received (AssistantMessage [TextBlock (str ''ok'')]),
               Received (ResultMessage False [])]))
      (str ''s'')) = 1"
  by (simp add: stream_message_def session_get_def fresh_state_def Let_def)


section \<open>Properties of the stream handler\<close>

subsection \<open>Evaluation\<close>

lemma split_chunks_short:
  assumes "t \<noteq> []" "length t \<le> 4000"
  shows "split_chunks t = [t]"
proof -
  have "(length t + CHUNK_SIZE - 1) div CHUNK_SIZE = 1"
  proof (rule div_nat_eqI)
    show "CHUNK_SIZE * 1 \<le> length t + CHUNK_SIZE - 1"
      using assms(1) by (cases t) (simp_all add: CHUNK_SIZE_def)
    show "length t + CHUNK_SIZE - 1 < CHUNK_SIZE * Suc 1"
      using assms(2) by (simp add: CHUNK_SIZE_def)
  qed
  then show ?thesis using assms(2) by (simp add: split_chunks_eq CHUNK_SIZE_def)
qed

lemma in_set_dropWhile: "x \<in> set s \<Longrightarrow> \<not> P x \<Longrightarrow> x \<in> set (dropWhile P s)"
  by (induction s) auto

lemma strip_nonempty: "x \<in> set s \<Longrightarrow> \<not> isspace x \<Longrightarrow> strip s \<noteq> []"
proof -
  assume a: "x \<in> set s" "\<not> isspace x"
  then have "x \<in> set (rev (dropWhile isspace s))" by (simp add: in_set_dropWhile)
  then have "x \<in> set (dropWhile isspace (rev (dropWhile isspace s)))"
    using a(2) by (rule in_set_dropWhile)
  then have "dropWhile isspace (rev (dropWhile isspace s)) \<noteq> []"
    by (metis empty_iff empty_set)
  then show ?thesis unfolding strip_def by (simp only: rev_is_Nil_conv not_False_eq_True)
qed

lemma str_of_nat_digit: "n < 10 \<Longrightarrow> str_of_nat n = [48 + n]"
  by (subst str_of_nat.simps) simp

subsection \<open>What a render pass leaves alone\<close>

lemma update_chunks_frame:
  "update_chunks env i cs w = (r, w') \<Longrightarrow>
     events (fst w') = events (fst w) \<and> last_update_time (fst w') = last_update_time (fst w)
     \<and> accumulated_text (fst w') = accumulated_text (fst w)
     \<and> current_message (fst w') = current_message (fst w)"
proof (induction env i cs w arbitrary: r w' rule: update_chunks.induct)
  case (1 env i w)
  then show ?case by simp
next
  case (2 env i chunk chunks st tr)
  show ?case
  proof (cases "i < length (messages st)")
    case True
    note lt = this
    show ?thesis
    proof (cases "i < length (message_contents st) \<and> message_contents st ! i = chunk")
      case True
      then show ?thesis using 2 lt by simp
    next
      case False
      note ne = this
      show ?thesis
      proof (cases "env (tr @ [EditText (messages st ! i) chunk Markdown])")
        case (Delivered h)
        then show ?thesis using "2.IH"(2)[OF lt ne refl Delivered] "2.prems" lt ne
          by (simp add: Let_def)
      next
        case (Rejected e)
        then show ?thesis using "2.IH"(3)[OF lt ne refl Rejected] "2.prems" lt ne
          by (simp add: Let_def)
      qed
    qed
  next
    case False
    note ge = this
    show ?thesis
    proof (cases "env (tr @ [ReplyText chunk Markdown])")
      case (Delivered msg)
      then show ?thesis using "2.IH"(4)[OF ge refl Delivered] "2.prems" ge
        by (simp add: Let_def)
    next
      case (Rejected e)
      then show ?thesis using "2.prems" ge by (auto simp: Let_def)
    qed
  qed
qed

lemma update_stream_message_frame:
  "update_stream_message env w = (r, w') \<Longrightarrow>
     events (fst w') = events (fst w) \<and> last_update_time (fst w') = last_update_time (fst w)
     \<and> accumulated_text (fst w') = accumulated_text (fst w)
     \<and> current_message (fst w') = current_message (fst w)"
  unfolding update_stream_message_def
  by (auto split: if_splits dest: update_chunks_frame)


subsection \<open>The event log after a handler call\<close>

lemma render_events:
  "events (fst (snd (update_stream_message env w))) = events (fst w)"
  using update_stream_message_frame[of env w] by (metis prod.collapse)

lemma render_last_update_time:
  "last_update_time (fst (snd (update_stream_message env w))) = last_update_time (fst w)"
  using update_stream_message_frame[of env w] by (metis prod.collapse)

lemma events_with_events: "events (fst (with_events f w)) = f (events (fst w))"
  by (simp add: with_events_def)

lemma last_update_time_with_events:
  "last_update_time (fst (with_events f w)) = last_update_time (fst w)"
  by (simp add: with_events_def)

lemma try_events:
  "events (fst (snd (stream_handler_try env t u w))) = events_after u (events (fst w))"
proof -
  let ?w1 = "with_events (\<lambda>es. merge_text es (the_content u)) w"
  have merged: "events (fst (snd (case last_update_time (fst ?w1) of
           None \<Rightarrow> (Some key_error_text, ?w1)
         | Some t' \<Rightarrow>
             if t - t' \<ge> 0.5 \<or> length (the_content u) > 50 then
               (case update_stream_message env ?w1 of
                  (None, (st2, tr2)) \<Rightarrow> (None, (st2\<lparr>last_update_time := Some t\<rparr>, tr2))
                | (Some e, w2) \<Rightarrow> (Some e, w2))
             else (None, ?w1)))) = merge_text (events (fst w)) (the_content u)"
  proof (cases "last_update_time (fst ?w1)")
    case None
    then show ?thesis by (simp add: events_with_events)
  next
    case (Some t')
    obtain r st2 tr2 where u: "update_stream_message env ?w1 = (r, (st2, tr2))"
      by (metis prod.collapse)
    have "events st2 = events (fst ?w1)" using render_events[of env ?w1] u by simp
    then show ?thesis using Some u
      by (cases r) (simp_all add: events_with_events)
  qed
  show ?thesis
    unfolding stream_handler_try_def events_after_def Let_def
    using merged by (simp add: render_events events_with_events Let_def)
qed

lemma except_frame:
  "events (fst (stream_handler_except env e w)) = events (fst w)
   \<and> messages (fst (stream_handler_except env e w)) = messages (fst w)
   \<and> message_contents (fst (stream_handler_except env e w)) = message_contents (fst w)
   \<and> last_update_time (fst (stream_handler_except env e w)) = last_update_time (fst w)"
  by (simp add: stream_handler_except_def Let_def split: option.splits reply.splits)

lemma handler_events:
  "events (fst (stream_handler env t u w)) = events_after u (events (fst w))"
proof -
  obtain r w' where tr: "stream_handler_try env t u w = (r, w')" by (metis prod.collapse)
  have "events (fst w') = events_after u (events (fst w))"
    using try_events[of env t u w] tr by simp
  then show ?thesis using tr
    by (cases r) (simp_all add: stream_handler_def except_frame)
qed


subsection \<open>Tool results\<close>

lemma finish_tool_no_match:
  "\<forall>ev \<in> set es. \<not> tool_with_id tool_id ev \<Longrightarrow> finish_tool tool_id es = es"
proof (induction es)
  case Nil
  show ?case by simp
next
  case (Cons ev es)
  then show ?case by (cases ev) simp_all
qed

lemma finish_tool_first_match:
  "\<forall>ev \<in> set pre. \<not> tool_with_id tool_id ev \<Longrightarrow>
   finish_tool tool_id (pre @ Tool n inp tool_id s # post) = pre @ Tool n inp tool_id Done # post"
proof (induction pre)
  case Nil
  show ?case by simp
next
  case (Cons ev pre)
  then show ?case by (cases ev) simp_all
qed

text \<open>
  Claim C3, as amended. A \<^verbatim>\<open>tool_result\<close> update with one result sets the status of the
  first tool entry of the log whose id is the result's \<^verbatim>\<open>tool_use_id\<close> to done (the
  earliest such entry, whatever its status was) and leaves every other entry as it is;
  when no tool entry has that id the log is unchanged, and the handler returns as on
  any update. A \<^verbatim>\<open>result\<close> update sets every running tool entry to done and leaves the
  other entries as they are.
\<close>

theorem tool_result_finishes_first_match:
  "(utype u = ''tool_result'' \<and> tool_calls u = Some [tool_result_dict tid e]
      \<longrightarrow> events (fst (stream_handler env t u w)) = finish_tool (Some tid) (events (fst w)))
   \<and> ((\<forall>ev \<in> set pre. \<not> tool_with_id tool_id ev)
      \<longrightarrow> finish_tool tool_id (pre @ Tool n inp tool_id s # post) = pre @ Tool n inp tool_id Done # post)
   \<and> ((\<forall>ev \<in> set es. \<not> tool_with_id tool_id ev) \<longrightarrow> finish_tool tool_id es = es)
   \<and> (utype u' = ''result''
      \<longrightarrow> events (fst (stream_handler env t u' w)) = map complete_tool (events (fst w)))
   \<and> complete_tool (Tool n inp i Running) = Tool n inp i Done
   \<and> complete_tool (Tool n inp i Done) = Tool n inp i Done
   \<and> complete_tool (Text c) = Text c"
proof -
  have a: "utype u = ''tool_result'' \<and> tool_calls u = Some [tool_result_dict tid e]
      \<longrightarrow> events (fst (stream_handler env t u w)) = finish_tool (Some tid) (events (fst w))"
    by (simp add: handler_events events_after_def has_tool_calls_def the_tool_calls_def
          tool_result_dict_def)
  have b: "utype u' = ''result''
      \<longrightarrow> events (fst (stream_handler env t u' w)) = map complete_tool (events (fst w))"
    by (simp add: handler_events events_after_def)
  from a b finish_tool_no_match[of es tool_id] finish_tool_first_match[of pre tool_id n inp s post]
  show ?thesis by simp
qed

text \<open>
  Two tools are running; the result of the second one arrives, then the result update.
\<close>

theorem tool_result_finishes_first_match_witness:
  "events (fst (stream_handler always_delivers 2
      (tool_result_update [tool_result_dict (str ''t2'') None])
      (init_stream_state\<lparr>events :=
         [Tool (Some (str ''X'')) empty_input (Some (str ''t1'')) Running,
          Tool (Some (str ''Y'')) empty_input (Some (str ''t2'')) Running]\<rparr>, [])))
   = [Tool (Some (str ''X'')) empty_input (Some (str ''t1'')) Running,
      Tool (Some (str ''Y'')) empty_input (Some (str ''t2'')) Done]
   \<and> events (fst (stream_handler always_delivers 3 result_update
      (init_stream_state\<lparr>events :=
         [Tool (Some (str ''X'')) empty_input (Some (str ''t1'')) Running,
          Tool (Some (str ''Y'')) empty_input (Some (str ''t2'')) Done]\<rparr>, [])))
   = [Tool (Some (str ''X'')) empty_input (Some (str ''t1'')) Done,
      Tool (Some (str ''Y'')) empty_input (Some (str ''t2'')) Done]"
  using tool_result_finishes_first_match[where u = "tool_result_update [tool_result_dict (str ''t2'') None]"
      and tid = "str ''t2''" and e = None and env = always_delivers and t = 2
      and w = "(init_stream_state\<lparr>events :=
         [Tool (Some (str ''X'')) empty_input (Some (str ''t1'')) Running,
          Tool (Some (str ''Y'')) empty_input (Some (str ''t2'')) Running]\<rparr>, [])"]
    tool_result_finishes_first_match[where u' = result_update and env = always_delivers and t = 3
      and w = "(init_stream_state\<lparr>events :=
         [Tool (Some (str ''X'')) empty_input (Some (str ''t1'')) Running,
          Tool (Some (str ''Y'')) empty_input (Some (str ''t2'')) Done]\<rparr>, [])"]
  by (simp add: tool_result_update_def result_update_def)

text \<open>
  The claim as it is written fails when two tool entries carry the same id: the result
  sets the earlier one to done, and the most recent one is still running.
\<close>

theorem tool_result_most_recent_counterexample:
  "events (fst (stream_handler always_delivers 2
      (tool_result_update [tool_result_dict (str ''t1'') None])
      (init_stream_state\<lparr>events :=
         [Tool (Some (str ''X'')) empty_input (Some (str ''t1'')) Running,
          Tool (Some (str ''Y'')) empty_input (Some (str ''t1'')) Running]\<rparr>, [])))
   = [Tool (Some (str ''X'')) empty_input (Some (str ''t1'')) Done,
      Tool (Some (str ''Y'')) empty_input (Some (str ''t1'')) Running]"
  by (simp add: handler_events events_after_def has_tool_calls_def the_tool_calls_def
        tool_result_dict_def tool_result_update_def)


subsection \<open>Text updates\<close>

lemma key_error_not_parse_error: "\<not> contains cant_parse_entities key_error_text"
  by (simp add: cant_parse_entities_def key_error_text_def)

lemma text_update_without_key:
  assumes "last_update_time (fst w) = None"
    and "utype u = ''assistant''" and "\<not> has_tool_calls u" and "truthy (content u)"
  shows "stream_handler env t u w = with_events (\<lambda>es. merge_text es (the_content u)) w"
proof -
  have "stream_handler_try env t u w
          = (Some key_error_text, with_events (\<lambda>es. merge_text es (the_content u)) w)"
    using assms by (simp add: stream_handler_try_def last_update_time_with_events Let_def)
  then show ?thesis
    by (simp add: stream_handler_def stream_handler_except_def key_error_not_parse_error)
qed

lemma try_last_update_time:
  assumes "last_update_time (fst w) = None"
  shows "last_update_time (fst (snd (stream_handler_try env t u w))) = None"
  using assms
  by (simp add: stream_handler_try_def render_last_update_time last_update_time_with_events Let_def)

lemma handler_last_update_time:
  assumes "last_update_time (fst w) = None"
  shows "last_update_time (fst (stream_handler env t u w)) = None"
proof -
  obtain r w' where tr: "stream_handler_try env t u w = (r, w')" by (metis prod.collapse)
  have "last_update_time (fst w') = None"
    using try_last_update_time[OF assms, of env t u] tr by simp
  then show ?thesis using tr by (cases r) (simp_all add: stream_handler_def except_frame)
qed

lemma handlers_last_update_time:
  "last_update_time (fst w) = None \<Longrightarrow> last_update_time (fst (stream_handlers env us w)) = None"
proof (induction us arbitrary: w)
  case Nil
  then show ?case by simp
next
  case (Cons tu us)
  obtain t u where tu: "tu = (t, u)" by (cases tu)
  have "last_update_time (fst (stream_handler env t u w)) = None"
    using Cons.prems by (rule handler_last_update_time)
  then show ?case unfolding tu by (simp add: Cons.IH)
qed

lemma merge_text_after_text: "merge_text (es @ [Text c]) d = es @ [Text (c @ d)]"
  by (simp add: merge_text_def)

lemma merge_text_after_tool: "merge_text (es @ [Tool n inp i s]) d = es @ [Tool n inp i s, Text d]"
  by (simp add: merge_text_def)

lemma merge_text_empty: "merge_text [] d = [Text d]"
  by (simp add: merge_text_def)

text \<open>
  Claim C4, at the failing input. On the state a turn starts with, two text updates
  0.1 seconds apart are merged into the log and nothing is sent, also when the second
  delta has 51 characters: the dictionary has no key \<^verbatim>\<open>last_update_time\<close>, the throttle
  test raises before it is evaluated, and the handler passes over the exception. A
  render pass on the same log would have sent the text.
\<close>

theorem text_updates_never_render:
  "stream_handlers env [(100, text_update (str ''Hel'')), (100.1, text_update (str ''lo''))]
      (init_stream_state, [])
     = (init_stream_state\<lparr>events := [Text (str ''Hello'')]\<rparr>, [])
   \<and> stream_handlers env [(100, text_update (str ''Hel'')), (100.1, text_update (replicate 51 120))]
      (init_stream_state, [])
     = (init_stream_state\<lparr>events := [Text (str ''Hel'' @ replicate 51 120)]\<rparr>, [])
   \<and> update_stream_message always_delivers (init_stream_state\<lparr>events := [Text (str ''Hello'')]\<rparr>, [])
     = (None, (init_stream_state\<lparr>events := [Text (str ''Hello'')], messages := [1],
                                  message_contents := [str ''Hello'']\<rparr>,
               [ReplyText (str ''Hello'') Markdown]))"
proof -
  have k: "last_update_time (fst (init_stream_state, tr)) = None" for tr :: "effect list"
    by (simp add: init_stream_state_def)
  have one: "stream_handler env 100 (text_update (str ''Hel'')) (init_stream_state, [])
           = (init_stream_state\<lparr>events := [Text (str ''Hel'')]\<rparr>, [])"
    by (subst text_update_without_key)
       (simp_all add: init_stream_state_def text_update_def has_tool_calls_def the_content_def
          with_events_def merge_text_def)
  have two: "stream_handler env t (text_update d) (init_stream_state\<lparr>events := [Text (str ''Hel'')]\<rparr>, [])
           = (init_stream_state\<lparr>events := [Text (str ''Hel'' @ d)]\<rparr>, [])" if "d \<noteq> []" for t d
    using that
    by (subst text_update_without_key)
       (simp_all add: init_stream_state_def text_update_def has_tool_calls_def the_content_def
          with_events_def merge_text_def)
  have a: "stream_handlers env [(100, text_update (str ''Hel'')), (100.1, text_update (str ''lo''))]
      (init_stream_state, [])
     = (init_stream_state\<lparr>events := [Text (str ''Hello'')]\<rparr>, [])"
    using one two[of "str ''lo''"] by simp
  have b: "stream_handlers env [(100, text_update (str ''Hel'')), (100.1, text_update (replicate 51 120))]
      (init_stream_state, [])
     = (init_stream_state\<lparr>events := [Text (str ''Hel'' @ replicate 51 120)]\<rparr>, [])"
    using one two[of "replicate 51 120"] by simp
  have s: "split_chunks (str ''Hello'') = [str ''Hello'']"
    by (rule split_chunks_short) simp_all
  have n: "strip (str ''Hello'') \<noteq> []"
    by (rule strip_nonempty[of 72]) (simp_all add: isspace_def)
  have c: "update_stream_message always_delivers (init_stream_state\<lparr>events := [Text (str ''Hello'')]\<rparr>, [])
     = (None, (init_stream_state\<lparr>events := [Text (str ''Hello'')], messages := [1],
                                  message_contents := [str ''Hello'']\<rparr>,
               [ReplyText (str ''Hello'') Markdown]))"
    using s n
    by (simp add: update_stream_message_def combined_text_def init_stream_state_def always_delivers_def)
  from a b c show ?thesis by blast
qed


subsection \<open>A turn with two texts and a tool\<close>

lemma handlers_events:
  "events (fst (stream_handlers env us w)) = foldl (\<lambda>es tu. events_after (snd tu) es) (events (fst w)) us"
proof (induction us arbitrary: w)
  case Nil
  show ?case by simp
next
  case (Cons tu us)
  obtain t u where tu: "tu = (t, u)" by (cases tu)
  show ?case unfolding tu by (simp add: Cons.IH handler_events)
qed

lemma tool_line_X:
  "tool_line 1 (Some (str ''X'')) inp st
     = str ''1. '' @ status_icon st @ str '' '' @ [0x1F527] @ str '' **X**''"
  by (simp add: tool_line_def str_of_nat_digit type_icon_def TOOL_ICONS_def format_name_def details_def)

text \<open>
  Claim C9. From an empty log the updates text \<open>Hel\<close>, text \<open>lo\<close>, tool call \<open>X\<close> with
  id 1, tool result for id 1 leave two entries, the text \<open>Hello\<close> and the tool \<open>X\<close> with
  status done, whatever the clock, the chat and the tool's input are. The text of the
  transcript is \<open>Hello\<close>, a line break and the tool's line (number, check mark, wrench,
  name in bold); on a chat that delivers, it is what the one message shows in the end. A
  text update is merged into the last entry when that is a text, and starts a new entry
  after a tool entry or on the empty log.
\<close>

theorem hello_then_tool_scenario:
  "events (fst (stream_handlers env
      [(t1, text_update (str ''Hel'')), (t2, text_update (str ''lo'')),
       (t3, tool_update [tool_call_dict (str ''X'') inp (str ''1'')]),
       (t4, tool_result_update [tool_result_dict (str ''1'') e])]
      (init_stream_state, [])))
     = [Text (str ''Hello''), Tool (Some (str ''X'')) inp (Some (str ''1'')) Done]
   \<and> combined_text [Text (str ''Hello''), Tool (Some (str ''X'')) inp (Some (str ''1'')) Done]
     = str ''Hello'' @ [10] @ tool_line 1 (Some (str ''X'')) inp Done
   \<and> tool_line 1 (Some (str ''X'')) inp Done
     = str ''1. '' @ [0x2713] @ str '' '' @ [0x1F527] @ str '' **X**''
   \<and> stream_handlers always_delivers
      [(t1, text_update (str ''Hel'')), (t2, text_update (str ''lo'')),
       (t3, tool_update [tool_call_dict (str ''X'') inp (str ''1'')]),
       (t4, tool_result_update [tool_result_dict (str ''1'') e])]
      (init_stream_state, [])
     = (init_stream_state\<lparr>
          events := [Text (str ''Hello''), Tool (Some (str ''X'')) inp (Some (str ''1'')) Done],
          messages := [1],
          message_contents := [str ''Hello'' @ [10] @ str ''1. '' @ [0x2713] @ str '' '' @ [0x1F527] @ str '' **X**'']\<rparr>,
        [ReplyText (str ''Hello'' @ [10] @ str ''1. '' @ [0x23F3] @ str '' '' @ [0x1F527] @ str '' **X**'') Markdown,
         EditText 1 (str ''Hello'' @ [10] @ str ''1. '' @ [0x2713] @ str '' '' @ [0x1F527] @ str '' **X**'') Markdown])
   \<and> merge_text (es @ [Text c]) d = es @ [Text (c @ d)]
   \<and> merge_text (es @ [Tool n inp' i s]) d = es @ [Tool n inp' i s, Text d]
   \<and> merge_text [] d = [Text d]"
proof -
  let ?ups = "[(t1, text_update (str ''Hel'')), (t2, text_update (str ''lo'')),
       (t3, tool_update [tool_call_dict (str ''X'') inp (str ''1'')]),
       (t4, tool_result_update [tool_result_dict (str ''1'') e])]"
  let ?running = "str ''Hello'' @ [10] @ str ''1. '' @ [0x23F3] @ str '' '' @ [0x1F527] @ str '' **X**''"
  let ?done = "str ''Hello'' @ [10] @ str ''1. '' @ [0x2713] @ str '' '' @ [0x1F527] @ str '' **X**''"
  have a: "events (fst (stream_handlers env ?ups (init_stream_state, [])))
     = [Text (str ''Hello''), Tool (Some (str ''X'')) inp (Some (str ''1'')) Done]"
    by (subst handlers_events)
       (simp add: events_after_def init_stream_state_def text_update_def
          tool_update_def tool_result_update_def has_tool_calls_def the_tool_calls_def
          the_content_def merge_text_def tool_event_def tool_call_dict_def tool_result_dict_def)
  have b: "combined_text [Text (str ''Hello''), Tool (Some (str ''X'')) inp (Some (str ''1'')) st]
     = str ''Hello'' @ [10] @ tool_line 1 (Some (str ''X'')) inp st" for st
    by (simp add: combined_text_def)
  have c: "tool_line 1 (Some (str ''X'')) inp Done
     = str ''1. '' @ [0x2713] @ str '' '' @ [0x1F527] @ str '' **X**''"
    by (subst tool_line_X) (simp add: status_icon_def)
  have c': "tool_line 1 (Some (str ''X'')) inp Running
     = str ''1. '' @ [0x23F3] @ str '' '' @ [0x1F527] @ str '' **X**''"
    by (subst tool_line_X) (simp add: status_icon_def)
  have text1: "stream_handlers always_delivers [(t1, text_update (str ''Hel'')), (t2, text_update (str ''lo''))]
      (init_stream_state, []) = (init_stream_state\<lparr>events := [Text (str ''Hello'')]\<rparr>, [])"
  proof -
    have "stream_handler always_delivers t1 (text_update (str ''Hel'')) (init_stream_state, [])
           = (init_stream_state\<lparr>events := [Text (str ''Hel'')]\<rparr>, [])"
      by (subst text_update_without_key)
         (simp_all add: init_stream_state_def text_update_def has_tool_calls_def the_content_def
            with_events_def merge_text_def)
    moreover have "stream_handler always_delivers t2 (text_update (str ''lo''))
             (init_stream_state\<lparr>events := [Text (str ''Hel'')]\<rparr>, [])
           = (init_stream_state\<lparr>events := [Text (str ''Hello'')]\<rparr>, [])"
      by (subst text_update_without_key)
         (simp_all add: init_stream_state_def text_update_def has_tool_calls_def the_content_def
            with_events_def merge_text_def)
    ultimately show ?thesis by simp
  qed
  have sr: "split_chunks ?running = [?running]" by (rule split_chunks_short) simp_all
  have sd: "split_chunks ?done = [?done]" by (rule split_chunks_short) simp_all
  have nr: "strip ?running \<noteq> []" by (rule strip_nonempty[of 72]) (simp_all add: isspace_def)
  have nd: "strip ?done \<noteq> []" by (rule strip_nonempty[of 72]) (simp_all add: isspace_def)
  have call: "stream_handler always_delivers t3 (tool_update [tool_call_dict (str ''X'') inp (str ''1'')])
      (init_stream_state\<lparr>events := [Text (str ''Hello'')]\<rparr>, [])
    = (init_stream_state\<lparr>
          events := [Text (str ''Hello''), Tool (Some (str ''X'')) inp (Some (str ''1'')) Running],
          messages := [1], message_contents := [?running]\<rparr>,
       [ReplyText ?running Markdown])"
    using sr nr b[of Running] c'
    by (simp add: stream_handler_def stream_handler_try_def tool_update_def has_tool_calls_def
          the_tool_calls_def with_events_def tool_event_def tool_call_dict_def
          update_stream_message_def init_stream_state_def always_delivers_def)
  have res: "stream_handler always_delivers t4 (tool_result_update [tool_result_dict (str ''1'') e])
      (init_stream_state\<lparr>
          events := [Text (str ''Hello''), Tool (Some (str ''X'')) inp (Some (str ''1'')) Running],
          messages := [1], message_contents := [?running]\<rparr>,
       [ReplyText ?running Markdown])
    = (init_stream_state\<lparr>
          events := [Text (str ''Hello''), Tool (Some (str ''X'')) inp (Some (str ''1'')) Done],
          messages := [1], message_contents := [?done]\<rparr>,
       [ReplyText ?running Markdown, EditText 1 ?done Markdown])"
    using sd nd b[of Done] c
    by (simp add: stream_handler_def stream_handler_try_def tool_result_update_def has_tool_calls_def
          the_tool_calls_def with_events_def tool_result_dict_def
          update_stream_message_def init_stream_state_def always_delivers_def)
  have d: "stream_handlers always_delivers ?ups (init_stream_state, [])
     = (init_stream_state\<lparr>
          events := [Text (str ''Hello''), Tool (Some (str ''X'')) inp (Some (str ''1'')) Done],
          messages := [1], message_contents := [?done]\<rparr>,
        [ReplyText ?running Markdown, EditText 1 ?done Markdown])"
    using text1 call res by simp
  from a b[of Done] c d merge_text_after_text[of es c d] merge_text_after_tool[of es n inp' i s d]
    merge_text_empty[of d]
  show ?thesis by (simp only: simp_thms)
qed


section \<open>Properties of a render pass\<close>

lemma update_chunks_beyond:
  "update_chunks env i cs w = (r, w') \<Longrightarrow>
   length (messages (fst w)) = length (message_contents (fst w)) \<Longrightarrow>
   i \<le> length (messages (fst w)) \<Longrightarrow>
     length (messages (fst w')) = length (message_contents (fst w'))
     \<and> take (length (messages (fst w))) (messages (fst w')) = messages (fst w)
     \<and> (\<forall>j. i + length cs \<le> j \<and> j < length (message_contents (fst w))
            \<longrightarrow> message_contents (fst w') ! j = message_contents (fst w) ! j)
     \<and> (\<forall>j < i. j < length (message_contents (fst w))
            \<longrightarrow> message_contents (fst w') ! j = message_contents (fst w) ! j)
     \<and> take (length (snd w)) (snd w') = snd w
     \<and> length (snd w') \<le> length (snd w) + length cs
     \<and> (\<forall>e \<in> set (drop (length (snd w)) (snd w')). is_chat_call e)"
proof (induction env i cs w arbitrary: r w' rule: update_chunks.induct)
  case (1 env i w)
  then show ?case by auto
next
  case (2 env i chunk chunks st tr)
  show ?case
  proof (cases "i < length (messages st)")
    case True
    note lt = this
    show ?thesis
    proof (cases "i < length (message_contents st) \<and> message_contents st ! i = chunk")
      case True
      have r: "update_chunks env (i + 1) chunks (st, tr) = (r, w')"
        using "2.prems"(1) lt True by simp
      from "2.IH"(1)[OF lt True r] "2.prems"(2,3) lt show ?thesis by auto
    next
      case False
      note ne = this
      let ?tr = "tr @ [EditText (messages st ! i) chunk Markdown]"
      show ?thesis
      proof (cases "env ?tr")
        case (Delivered h)
        let ?st = "st\<lparr>message_contents := (message_contents st)[i := chunk]\<rparr>"
        have r: "update_chunks env (i + 1) chunks (?st, ?tr) = (r, w')"
          using "2.prems" lt ne Delivered by (simp add: Let_def)
        have "update_chunks env (i + 1) chunks
                (st\<lparr>message_contents :=
                      (if i < length (message_contents st) then (message_contents st)[i := chunk]
                       else message_contents st @ [chunk])\<rparr>, ?tr) = (r, w')"
          using r "2.prems"(2) lt by simp
        from "2.IH"(2)[OF lt ne refl Delivered this] "2.prems"(2,3) lt
        have ih: "length (messages (fst w')) = length (message_contents (fst w'))
           \<and> take (length (messages st)) (messages (fst w')) = messages st
           \<and> (\<forall>j. i + 1 + length chunks \<le> j \<and> j < length (message_contents st)
                  \<longrightarrow> message_contents (fst w') ! j = (message_contents st)[i := chunk] ! j)
           \<and> (\<forall>j < i + 1. j < length (message_contents st)
                  \<longrightarrow> message_contents (fst w') ! j = (message_contents st)[i := chunk] ! j)
           \<and> take (length ?tr) (snd w') = ?tr
           \<and> length (snd w') \<le> length ?tr + length chunks
           \<and> (\<forall>e \<in> set (drop (length ?tr) (snd w')). is_chat_call e)"
          by simp
        have pre: "take (length tr) (snd w') = tr"
          using ih by (metis append_eq_conv_conj length_append_singleton lessI less_imp_le_nat
              take_all_iff take_take min.absorb1 append_take_drop_id)
        have mem: "\<forall>e \<in> set (drop (length tr) (snd w')). is_chat_call e"
        proof -
          have "snd w' = ?tr @ drop (length ?tr) (snd w')"
            using ih by (metis append_take_drop_id)
          then have "drop (length tr) (snd w')
               = EditText (messages st ! i) chunk Markdown # drop (length ?tr) (snd w')"
            by (metis append.assoc append_Cons append_Nil append_eq_conv_conj)
          then show ?thesis using ih by simp
        qed
        from ih pre mem show ?thesis by auto
      next
        case (Rejected e)
        have r: "update_chunks env (i + 1) chunks (st, ?tr) = (r, w')"
          using "2.prems" lt ne Rejected by (simp add: Let_def)
        from "2.IH"(3)[OF lt ne refl Rejected r] "2.prems"(2,3) lt
        have ih: "length (messages (fst w')) = length (message_contents (fst w'))
           \<and> take (length (messages st)) (messages (fst w')) = messages st
           \<and> (\<forall>j. i + 1 + length chunks \<le> j \<and> j < length (message_contents st)
                  \<longrightarrow> message_contents (fst w') ! j = message_contents st ! j)
           \<and> (\<forall>j < i + 1. j < length (message_contents st)
                  \<longrightarrow> message_contents (fst w') ! j = message_contents st ! j)
           \<and> take (length ?tr) (snd w') = ?tr
           \<and> length (snd w') \<le> length ?tr + length chunks
           \<and> (\<forall>e \<in> set (drop (length ?tr) (snd w')). is_chat_call e)"
          by simp
        have pre: "take (length tr) (snd w') = tr"
          using ih by (metis append_eq_conv_conj length_append_singleton lessI less_imp_le_nat
              take_all_iff take_take min.absorb1 append_take_drop_id)
        have mem: "\<forall>e \<in> set (drop (length tr) (snd w')). is_chat_call e"
        proof -
          have "snd w' = ?tr @ drop (length ?tr) (snd w')"
            using ih by (metis append_take_drop_id)
          then have "drop (length tr) (snd w')
               = EditText (messages st ! i) chunk Markdown # drop (length ?tr) (snd w')"
            by (metis append.assoc append_Cons append_Nil append_eq_conv_conj)
          then show ?thesis using ih by simp
        qed
        from ih pre mem show ?thesis by auto
      qed
    qed
  next
    case False
    note ge = this
    then have eq: "i = length (messages st)" using "2.prems"(3) by simp
    let ?tr = "tr @ [ReplyText chunk Markdown]"
    show ?thesis
    proof (cases "env ?tr")
      case (Delivered msg)
      let ?st = "st\<lparr>messages := messages st @ [msg], message_contents := message_contents st @ [chunk]\<rparr>"
      have r: "update_chunks env (i + 1) chunks (?st, ?tr) = (r, w')"
        using "2.prems" ge Delivered by (simp add: Let_def)
      from "2.IH"(4)[OF ge refl Delivered r] "2.prems"(2,3) eq
      have ih: "length (messages (fst w')) = length (message_contents (fst w'))
           \<and> take (Suc (length (messages st))) (messages (fst w')) = messages st @ [msg]
           \<and> (\<forall>j < i + 1. j < Suc (length (message_contents st))
                  \<longrightarrow> message_contents (fst w') ! j = (message_contents st @ [chunk]) ! j)
           \<and> take (length ?tr) (snd w') = ?tr
           \<and> length (snd w') \<le> length ?tr + length chunks
           \<and> (\<forall>e \<in> set (drop (length ?tr) (snd w')). is_chat_call e)"
        by simp
      have m: "take (length (messages st)) (messages (fst w')) = messages st"
      proof -
        have "take (length (messages st)) (take (Suc (length (messages st))) (messages (fst w')))
                = take (length (messages st)) (messages st @ [msg])"
          using ih by simp
        then show ?thesis by (simp add: min_def)
      qed
      have c: "\<forall>j < i. j < length (message_contents st)
                  \<longrightarrow> message_contents (fst w') ! j = message_contents st ! j"
        using ih by (auto simp: nth_append)
      have pre: "take (length tr) (snd w') = tr"
        using ih by (metis append_eq_conv_conj length_append_singleton lessI less_imp_le_nat
            take_all_iff take_take min.absorb1 append_take_drop_id)
      have mem: "\<forall>e \<in> set (drop (length tr) (snd w')). is_chat_call e"
      proof -
        have "snd w' = ?tr @ drop (length ?tr) (snd w')"
          using ih by (metis append_take_drop_id)
        then have "drop (length tr) (snd w')
             = ReplyText chunk Markdown # drop (length ?tr) (snd w')"
          by (metis append.assoc append_Cons append_Nil append_eq_conv_conj)
        then show ?thesis using ih by simp
      qed
      from ih m c pre mem "2.prems"(2) eq show ?thesis by auto
    next
      case (Rejected e)
      then have "w' = (st, ?tr)" using "2.prems"(1) ge by (auto simp: Let_def)
      then show ?thesis using "2.prems"(2) by simp
    qed
  qed
qed


lemma render_pass_frame:
  assumes "length (messages (fst w)) = length (message_contents (fst w))"
  shows "length (messages (fst (snd (update_stream_message env w))))
           = length (message_contents (fst (snd (update_stream_message env w))))
       \<and> take (length (snd w)) (snd (snd (update_stream_message env w))) = snd w
       \<and> (\<forall>e \<in> set (drop (length (snd w)) (snd (snd (update_stream_message env w)))). is_chat_call e)"
proof (cases "events (fst w) = [] \<or> strip (combined_text (events (fst w))) = []")
  case True
  then show ?thesis using assms by (auto simp: update_stream_message_def)
next
  case False
  let ?cs = "split_chunks (combined_text (events (fst w)))"
  obtain r w' where u: "update_chunks env 0 ?cs w = (r, w')" by (metis prod.collapse)
  have "update_stream_message env w = (r, w')"
    using False u by (simp add: update_stream_message_def)
  then show ?thesis using update_chunks_beyond[OF u assms] by simp
qed

lemma except_trace:
  "take (length (snd w)) (snd (stream_handler_except env e w)) = snd w
   \<and> (\<forall>x \<in> set (drop (length (snd w)) (snd (stream_handler_except env e w))). is_chat_call x)"
  by (simp add: stream_handler_except_def Let_def split: option.splits reply.splits)

lemma trace_extends_trans:
  assumes "take (length a) b = a" "\<forall>e \<in> set (drop (length a) b). is_chat_call e"
    and "take (length b) c = b" "\<forall>e \<in> set (drop (length b) c). is_chat_call e"
  shows "take (length a) c = a \<and> (\<forall>e \<in> set (drop (length a) c). is_chat_call e)"
proof -
  obtain x where b: "b = a @ x" using assms(1) by (metis append_take_drop_id)
  obtain y where c: "c = b @ y" using assms(3) by (metis append_take_drop_id)
  have "\<forall>e \<in> set x. is_chat_call e" using assms(2) b by simp
  moreover have "\<forall>e \<in> set y. is_chat_call e" using assms(4) c by simp
  ultimately show ?thesis using b c by auto
qed

lemma try_frame:
  assumes "length (messages (fst w)) = length (message_contents (fst w))"
  shows "length (messages (fst (snd (stream_handler_try env t u w))))
           = length (message_contents (fst (snd (stream_handler_try env t u w))))
       \<and> take (length (snd w)) (snd (snd (stream_handler_try env t u w))) = snd w
       \<and> (\<forall>e \<in> set (drop (length (snd w)) (snd (snd (stream_handler_try env t u w)))). is_chat_call e)"
proof -
  have we: "length (messages (fst (with_events f w))) = length (message_contents (fst (with_events f w)))"
    "snd (with_events f w) = snd w" for f
    using assms by (simp_all add: with_events_def)
  have r: "length (messages (fst (snd (update_stream_message env (with_events f w)))))
           = length (message_contents (fst (snd (update_stream_message env (with_events f w)))))
       \<and> take (length (snd w)) (snd (snd (update_stream_message env (with_events f w)))) = snd w
       \<and> (\<forall>e \<in> set (drop (length (snd w)) (snd (snd (update_stream_message env (with_events f w))))).
             is_chat_call e)" for f
    using render_pass_frame[OF we(1)[of f], where env = env] unfolding we(2) by blast
  let ?w1 = "with_events (\<lambda>es. merge_text es (the_content u)) w"
  have merged: "length (messages (fst (snd X))) = length (message_contents (fst (snd X)))
       \<and> take (length (snd w)) (snd (snd X)) = snd w
       \<and> (\<forall>e \<in> set (drop (length (snd w)) (snd (snd X))). is_chat_call e)"
    if "X = (case last_update_time (fst ?w1) of
           None \<Rightarrow> (Some key_error_text, ?w1)
         | Some t' \<Rightarrow>
             if t - t' \<ge> 0.5 \<or> length (the_content u) > 50 then
               (case update_stream_message env ?w1 of
                  (None, (st2, tr2)) \<Rightarrow> (None, (st2\<lparr>last_update_time := Some t\<rparr>, tr2))
                | (Some e, w2) \<Rightarrow> (Some e, w2))
             else (None, ?w1))" for X
  proof (cases "last_update_time (fst ?w1)")
    case None
    then show ?thesis using that we[of "\<lambda>es. merge_text es (the_content u)"] by simp
  next
    case (Some t')
    obtain q st2 tr2 where us: "update_stream_message env ?w1 = (q, (st2, tr2))"
      by (metis prod.collapse)
    from r[of "\<lambda>es. merge_text es (the_content u)"] us
    have "length (messages st2) = length (message_contents st2)
       \<and> take (length (snd w)) tr2 = snd w
       \<and> (\<forall>e \<in> set (drop (length (snd w)) tr2). is_chat_call e)" by simp
    then show ?thesis using that Some us we[of "\<lambda>es. merge_text es (the_content u)"]
      by (cases q) (simp_all)
  qed
  show ?thesis
    unfolding stream_handler_try_def Let_def
    using merged[OF refl] r assms by (simp add: Let_def)
qed

lemma handler_frame:
  assumes "length (messages (fst w)) = length (message_contents (fst w))"
  shows "length (messages (fst (stream_handler env t u w)))
           = length (message_contents (fst (stream_handler env t u w)))
       \<and> take (length (snd w)) (snd (stream_handler env t u w)) = snd w
       \<and> (\<forall>e \<in> set (drop (length (snd w)) (snd (stream_handler env t u w))). is_chat_call e)"
proof -
  obtain q w' where tr: "stream_handler_try env t u w = (q, w')" by (metis prod.collapse)
  from try_frame[OF assms, of env t u] tr
  have f: "length (messages (fst w')) = length (message_contents (fst w'))"
    "take (length (snd w)) (snd w') = snd w"
    "\<forall>e \<in> set (drop (length (snd w)) (snd w')). is_chat_call e" by simp_all
  show ?thesis
  proof (cases q)
    case None
    then show ?thesis using tr f by (simp add: stream_handler_def)
  next
    case (Some e)
    have h: "stream_handler env t u w = stream_handler_except env e w'"
      using tr Some by (simp add: stream_handler_def)
    from except_trace[of w' env e] trace_extends_trans[OF f(2,3)]
    have "take (length (snd w)) (snd (stream_handler_except env e w')) = snd w
       \<and> (\<forall>x \<in> set (drop (length (snd w)) (snd (stream_handler_except env e w'))). is_chat_call x)"
      by blast
    then show ?thesis unfolding h using f(1) except_frame[of env e w'] by simp
  qed
qed

lemma handlers_frame:
  "length (messages (fst w)) = length (message_contents (fst w)) \<Longrightarrow>
   length (messages (fst (stream_handlers env us w)))
           = length (message_contents (fst (stream_handlers env us w)))
       \<and> take (length (snd w)) (snd (stream_handlers env us w)) = snd w
       \<and> (\<forall>e \<in> set (drop (length (snd w)) (snd (stream_handlers env us w))). is_chat_call e)"
proof (induction us arbitrary: w)
  case Nil
  then show ?case by simp
next
  case (Cons tu us)
  obtain t u where tu: "tu = (t, u)" by (cases tu)
  note h = handler_frame[OF Cons.prems, of env t u]
  from h have i: "length (messages (fst (stream_handler env t u w)))
           = length (message_contents (fst (stream_handler env t u w)))" by simp
  note ih = Cons.IH[OF i]
  from trace_extends_trans[of "snd w" "snd (stream_handler env t u w)"
      "snd (stream_handlers env us (stream_handler env t u w))"] h ih
  show ?case unfolding tu by simp
qed


text \<open>
  Claim C6, as amended. In a render pass, with as many recorded contents as messages (as
  it is throughout a turn): a chunk that equals the content recorded for its message
  makes no call; a chunk that differs makes one call of \<^verbatim>\<open>edit_text\<close> on the message at
  its index, and the new content is recorded when the call succeeds; when the call
  fails nothing is recorded and the pass goes on with the next chunk, so that a later
  pass calls \<^verbatim>\<open>edit_text\<close> for that chunk again as long as its content differs from
  the recorded one; a chunk with no message at its index makes one call of
  \<^verbatim>\<open>reply_text\<close>, and the message and the content are recorded when it succeeds. A
  pass makes at most one call for each chunk, never changes the messages that exist,
  and leaves the contents recorded beyond the chunks as they are.
\<close>

theorem render_pass_cases:
  assumes "length (messages st) = length (message_contents st)"
  shows "(i < length (messages st) \<and> message_contents st ! i = chunk
            \<longrightarrow> update_chunks env i (chunk # chunks) (st, tr)
                = update_chunks env (i + 1) chunks (st, tr))
       \<and> (i < length (messages st) \<and> message_contents st ! i \<noteq> chunk
            \<and> env (tr @ [EditText (messages st ! i) chunk Markdown]) = Delivered h
            \<longrightarrow> update_chunks env i (chunk # chunks) (st, tr)
                = update_chunks env (i + 1) chunks
                    (st\<lparr>message_contents := (message_contents st)[i := chunk]\<rparr>,
                     tr @ [EditText (messages st ! i) chunk Markdown]))
       \<and> (i < length (messages st) \<and> message_contents st ! i \<noteq> chunk
            \<and> env (tr @ [EditText (messages st ! i) chunk Markdown]) = Rejected x
            \<longrightarrow> update_chunks env i (chunk # chunks) (st, tr)
                = update_chunks env (i + 1) chunks
                    (st, tr @ [EditText (messages st ! i) chunk Markdown]))
       \<and> (\<not> i < length (messages st) \<and> env (tr @ [ReplyText chunk Markdown]) = Delivered msg
            \<longrightarrow> update_chunks env i (chunk # chunks) (st, tr)
                = update_chunks env (i + 1) chunks
                    (st\<lparr>messages := messages st @ [msg],
                        message_contents := message_contents st @ [chunk]\<rparr>,
                     tr @ [ReplyText chunk Markdown]))
       \<and> take (length (messages st)) (messages (fst (snd (update_chunks env 0 cs (st, tr)))))
           = messages st
       \<and> (\<forall>j. length cs \<le> j \<and> j < length (message_contents st)
            \<longrightarrow> message_contents (fst (snd (update_chunks env 0 cs (st, tr)))) ! j
                = message_contents st ! j)
       \<and> take (length tr) (snd (snd (update_chunks env 0 cs (st, tr)))) = tr
       \<and> length (snd (snd (update_chunks env 0 cs (st, tr)))) \<le> length tr + length cs"
proof -
  have same: "i < length (messages st) \<and> message_contents st ! i = chunk
            \<longrightarrow> update_chunks env i (chunk # chunks) (st, tr)
                = update_chunks env (i + 1) chunks (st, tr)"
    using assms by simp
  have edit_ok: "i < length (messages st) \<and> message_contents st ! i \<noteq> chunk
            \<and> env (tr @ [EditText (messages st ! i) chunk Markdown]) = Delivered h
            \<longrightarrow> update_chunks env i (chunk # chunks) (st, tr)
                = update_chunks env (i + 1) chunks
                    (st\<lparr>message_contents := (message_contents st)[i := chunk]\<rparr>,
                     tr @ [EditText (messages st ! i) chunk Markdown])"
    using assms by (simp add: Let_def)
  have edit_fails: "i < length (messages st) \<and> message_contents st ! i \<noteq> chunk
            \<and> env (tr @ [EditText (messages st ! i) chunk Markdown]) = Rejected x
            \<longrightarrow> update_chunks env i (chunk # chunks) (st, tr)
                = update_chunks env (i + 1) chunks
                    (st, tr @ [EditText (messages st ! i) chunk Markdown])"
    using assms by (simp add: Let_def)
  have send: "\<not> i < length (messages st) \<and> env (tr @ [ReplyText chunk Markdown]) = Delivered msg
            \<longrightarrow> update_chunks env i (chunk # chunks) (st, tr)
                = update_chunks env (i + 1) chunks
                    (st\<lparr>messages := messages st @ [msg],
                        message_contents := message_contents st @ [chunk]\<rparr>,
                     tr @ [ReplyText chunk Markdown])"
    by (simp add: Let_def)
  obtain r w' where u: "update_chunks env 0 cs (st, tr) = (r, w')" by (metis prod.collapse)
  from update_chunks_beyond[OF u] assms
  have frame: "take (length (messages st)) (messages (fst w')) = messages st
       \<and> (\<forall>j. length cs \<le> j \<and> j < length (message_contents st)
            \<longrightarrow> message_contents (fst w') ! j = message_contents st ! j)
       \<and> take (length tr) (snd w') = tr
       \<and> length (snd w') \<le> length tr + length cs"
    by simp
  from same edit_ok edit_fails send frame show ?thesis unfolding u by simp
qed

text \<open>
  Two messages show \<open>a\<close> and \<open>b\<close>; a pass with the one chunk \<open>x\<close> edits the first message
  and leaves the second.
\<close>

theorem render_pass_cases_witness:
  "update_chunks always_delivers 0 [str ''x'']
     (init_stream_state\<lparr>messages := [7, 8], message_contents := [str ''a'', str ''b'']\<rparr>, [])
   = (None, (init_stream_state\<lparr>messages := [7, 8], message_contents := [str ''x'', str ''b'']\<rparr>,
             [EditText 7 (str ''x'') Markdown]))"
  using render_pass_cases[where st = "init_stream_state\<lparr>messages := [7, 8], message_contents := [str ''a'', str ''b'']\<rparr>"
      and i = 0 and chunk = "str ''x''" and chunks = "[]" and env = always_delivers and tr = "[]" and h = 1]
  by (simp add: always_delivers_def init_stream_state_def)

text \<open>
  The claim as it is written fails on an edit that fails: the chat delivers the first
  message and rejects every later call; the tool result makes a pass whose edit fails;
  the result update makes the next pass, which calls the same edit again.
\<close>

theorem failed_edit_retried_counterexample:
  "snd (stream_handlers delivers_once
      [(1, tool_update [tool_call_dict (str ''X'') empty_input (str ''1'')]),
       (2, tool_result_update [tool_result_dict (str ''1'') None]),
       (3, result_update)]
      (init_stream_state, []))
   = [ReplyText (str ''1. '' @ [0x23F3] @ str '' '' @ [0x1F527] @ str '' **X**'') Markdown,
      EditText 1 (str ''1. '' @ [0x2713] @ str '' '' @ [0x1F527] @ str '' **X**'') Markdown,
      EditText 1 (str ''1. '' @ [0x2713] @ str '' '' @ [0x1F527] @ str '' **X**'') Markdown]"
proof -
  let ?running = "str ''1. '' @ [0x23F3] @ str '' '' @ [0x1F527] @ str '' **X**''"
  let ?done = "str ''1. '' @ [0x2713] @ str '' '' @ [0x1F527] @ str '' **X**''"
  let ?ev = "\<lambda>s. [Tool (Some (str ''X'')) empty_input (Some (str ''1'')) s]"
  have cr: "combined_text (?ev Running) = ?running"
    by (simp add: combined_text_def tool_line_def str_of_nat_digit type_icon_def TOOL_ICONS_def
          format_name_def details_def status_icon_def)
  have cd: "combined_text (?ev Done) = ?done"
    by (simp add: combined_text_def tool_line_def str_of_nat_digit type_icon_def TOOL_ICONS_def
          format_name_def details_def status_icon_def)
  have sr: "split_chunks ?running = [?running]" by (rule split_chunks_short) simp_all
  have sd: "split_chunks ?done = [?done]" by (rule split_chunks_short) simp_all
  have nr: "strip ?running \<noteq> []" by (rule strip_nonempty[of 49]) (simp_all add: isspace_def)
  have nd: "strip ?done \<noteq> []" by (rule strip_nonempty[of 49]) (simp_all add: isspace_def)
  have s1: "stream_handler delivers_once 1 (tool_update [tool_call_dict (str ''X'') empty_input (str ''1'')])
      (init_stream_state, [])
    = (init_stream_state\<lparr>events := ?ev Running, messages := [1], message_contents := [?running]\<rparr>,
       [ReplyText ?running Markdown])"
    using sr nr cr
    by (simp add: stream_handler_def stream_handler_try_def tool_update_def has_tool_calls_def
          the_tool_calls_def with_events_def tool_event_def tool_call_dict_def
          update_stream_message_def init_stream_state_def delivers_once_def)
  have s2: "stream_handler delivers_once 2 (tool_result_update [tool_result_dict (str ''1'') None])
      (init_stream_state\<lparr>events := ?ev Running, messages := [1], message_contents := [?running]\<rparr>,
       [ReplyText ?running Markdown])
    = (init_stream_state\<lparr>events := ?ev Done, messages := [1], message_contents := [?running]\<rparr>,
       [ReplyText ?running Markdown, EditText 1 ?done Markdown])"
    using sd nd cd
    by (simp add: stream_handler_def stream_handler_try_def tool_result_update_def has_tool_calls_def
          the_tool_calls_def with_events_def tool_result_dict_def
          update_stream_message_def init_stream_state_def delivers_once_def)
  have s3: "stream_handler delivers_once 3 result_update
      (init_stream_state\<lparr>events := ?ev Done, messages := [1], message_contents := [?running]\<rparr>,
       [ReplyText ?running Markdown, EditText 1 ?done Markdown])
    = (init_stream_state\<lparr>events := ?ev Done, messages := [1], message_contents := [?running]\<rparr>,
       [ReplyText ?running Markdown, EditText 1 ?done Markdown, EditText 1 ?done Markdown])"
    using sd nd cd
    by (simp add: stream_handler_def stream_handler_try_def result_update_def has_tool_calls_def
          with_events_def update_stream_message_def init_stream_state_def delivers_once_def)
  show ?thesis using s1 s2 s3 by simp
qed


section \<open>Properties of the turn\<close>

lemma init_lengths:
  "length (messages (fst (init_stream_state, tr))) = length (message_contents (fst (init_stream_state, tr)))"
  by (simp add: init_stream_state_def)

text \<open>
  Claim C7, as amended. However \<^verbatim>\<open>run_command\<close> ends (it returns, it raises the tool
  validation error, it raises another exception), the typing task is created first,
  cancelled once and awaited once, in this order, after every call the stream handler
  made on the chat, and the \<^verbatim>\<open>finally\<close> clause itself makes no call and leaves the stream
  state as the last handler call left it. A render pass runs, whatever the clock, when
  a \<^verbatim>\<open>result\<close> update reaches the handler; on an \<^verbatim>\<open>error\<close> update the handler does
  nothing.
\<close>

theorem turn_teardown:
  "(\<exists>chat. snd (fst (run_turn env deliveries outcome))
              = CreateTypingTask # chat @ [CancelTypingTask, AwaitTypingTask]
           \<and> (\<forall>e \<in> set chat. is_chat_call e))
   \<and> fst (fst (run_turn env deliveries outcome))
       = fst (stream_handlers env deliveries (init_stream_state, [CreateTypingTask]))
   \<and> (utype u = ''result''
       \<longrightarrow> stream_handler_try env t u w = update_stream_message env (with_events (map complete_tool) w))
   \<and> (utype u' = ''error'' \<longrightarrow> stream_handler env t u' w = w)"
proof -
  let ?w0 = "(init_stream_state, [CreateTypingTask])"
  let ?w1 = "stream_handlers env deliveries ?w0"
  from handlers_frame[OF init_lengths[of "[CreateTypingTask]"], where env = env and us = deliveries]
  have f: "take 1 (snd ?w1) = [CreateTypingTask]"
    "\<forall>e \<in> set (drop 1 (snd ?w1)). is_chat_call e"
    by simp_all
  have "snd ?w1 = CreateTypingTask # drop 1 (snd ?w1)"
    using f(1) by (metis append_Cons append_Nil append_take_drop_id)
  then have "snd (fst (run_turn env deliveries outcome))
      = CreateTypingTask # drop 1 (snd ?w1) @ [CancelTypingTask, AwaitTypingTask]"
    by (simp add: run_turn_def Let_def)
  then have a: "\<exists>chat. snd (fst (run_turn env deliveries outcome))
              = CreateTypingTask # chat @ [CancelTypingTask, AwaitTypingTask]
           \<and> (\<forall>e \<in> set chat. is_chat_call e)"
    using f(2) by blast
  have b: "fst (fst (run_turn env deliveries outcome)) = fst ?w1"
    by (simp add: run_turn_def Let_def)
  have c: "utype u = ''result''
       \<longrightarrow> stream_handler_try env t u w = update_stream_message env (with_events (map complete_tool) w)"
    by (simp add: stream_handler_try_def)
  have d: "utype u' = ''error'' \<longrightarrow> stream_handler env t u' w = w"
    by (simp add: stream_handler_def stream_handler_try_def)
  from a b c d show ?thesis by blast
qed

text \<open>A turn of one tool call and the result update, on a chat that delivers.\<close>

theorem turn_teardown_witness:
  "hd (snd (fst (run_turn always_delivers
         [(1, tool_update [tool_call_dict (str ''X'') empty_input (str ''1'')]), (2, result_update)]
         Returned))) = CreateTypingTask
   \<and> last (snd (fst (run_turn always_delivers
         [(1, tool_update [tool_call_dict (str ''X'') empty_input (str ''1'')]), (2, result_update)]
         Returned))) = AwaitTypingTask
   \<and> stream_handler_try always_delivers 2 result_update (init_stream_state, [])
       = update_stream_message always_delivers (with_events (map complete_tool) (init_stream_state, []))
   \<and> stream_handler always_delivers 3 (error_update (str ''boom'')) (init_stream_state, [])
       = (init_stream_state, [])"
proof -
  let ?ds = "[(1, tool_update [tool_call_dict (str ''X'') empty_input (str ''1'')]), (2, result_update)]"
  note t = turn_teardown[where env = always_delivers and deliveries = ?ds and outcome = Returned
      and u = result_update and t = 2 and w = "(init_stream_state, [])"
      and u' = "error_update (str ''boom'')"]
  from t obtain chat where
    c: "snd (fst (run_turn always_delivers ?ds Returned))
          = CreateTypingTask # chat @ [CancelTypingTask, AwaitTypingTask]"
    by blast
  have h: "hd (snd (fst (run_turn always_delivers ?ds Returned))) = CreateTypingTask"
    unfolding c by simp
  have l: "last (snd (fst (run_turn always_delivers ?ds Returned))) = AwaitTypingTask"
    unfolding c by simp
  have r: "stream_handler_try always_delivers 2 result_update (init_stream_state, [])
       = update_stream_message always_delivers (with_events (map complete_tool) (init_stream_state, []))"
    using t by (simp add: result_update_def)
  have e: "stream_handler always_delivers 2 (error_update (str ''boom'')) (init_stream_state, [])
       = (init_stream_state, [])"
    using t by (simp add: error_update_def)
  have e3: "stream_handler always_delivers 3 (error_update (str ''boom'')) (init_stream_state, [])
       = (init_stream_state, [])"
    using turn_teardown[where env = always_delivers and t = 3 and w = "(init_stream_state, [])"
      and u' = "error_update (str ''boom'')"]
    by (simp add: error_update_def)
  from h l r e3 show ?thesis by blast
qed

text \<open>
  The claim as it is written fails on the flush. A tool call is rendered, a text update
  is merged into the log without a render, and the turn ends by an \<^verbatim>\<open>error\<close> update, or
  by an exception of \<^verbatim>\<open>run_command\<close>: nothing is sent after the tool line, the task is
  cancelled and awaited, and the message still shows the tool line alone while the
  transcript has the text as well.
\<close>

theorem no_final_flush_counterexample:
  "run_turn always_delivers
     [(10, tool_update [tool_call_dict (str ''X'') empty_input (str ''1'')]),
      (10.1, text_update (str ''Hello'')), (10.2, error_update (str ''boom''))]
     Returned
   = ((init_stream_state\<lparr>
         events := [Tool (Some (str ''X'')) empty_input (Some (str ''1'')) Running, Text (str ''Hello'')],
         messages := [2],
         message_contents := [str ''1. '' @ [0x23F3] @ str '' '' @ [0x1F527] @ str '' **X**'']\<rparr>,
       [CreateTypingTask,
        ReplyText (str ''1. '' @ [0x23F3] @ str '' '' @ [0x1F527] @ str '' **X**'') Markdown,
        CancelTypingTask, AwaitTypingTask]), None)
   \<and> run_turn always_delivers
     [(10, tool_update [tool_call_dict (str ''X'') empty_input (str ''1'')]),
      (10.1, text_update (str ''Hello''))]
     (OtherException (str ''closed''))
   = ((init_stream_state\<lparr>
         events := [Tool (Some (str ''X'')) empty_input (Some (str ''1'')) Running, Text (str ''Hello'')],
         messages := [2],
         message_contents := [str ''1. '' @ [0x23F3] @ str '' '' @ [0x1F527] @ str '' **X**'']\<rparr>,
       [CreateTypingTask,
        ReplyText (str ''1. '' @ [0x23F3] @ str '' '' @ [0x1F527] @ str '' **X**'') Markdown,
        CancelTypingTask, AwaitTypingTask]), Some (unexpected_error_text (str ''closed'')))
   \<and> combined_text [Tool (Some (str ''X'')) empty_input (Some (str ''1'')) Running, Text (str ''Hello'')]
   = str ''1. '' @ [0x23F3] @ str '' '' @ [0x1F527] @ str '' **X**'' @ [10, 10] @ str ''---'' @ [10, 10]
     @ str ''Hello''"
proof -
  let ?running = "str ''1. '' @ [0x23F3] @ str '' '' @ [0x1F527] @ str '' **X**''"
  let ?tool = "Tool (Some (str ''X'')) empty_input (Some (str ''1'')) Running"
  have cr: "combined_text [?tool] = ?running"
    by (simp add: combined_text_def tool_line_def str_of_nat_digit type_icon_def TOOL_ICONS_def
          format_name_def details_def status_icon_def)
  have ct: "combined_text [?tool, Text (str ''Hello'')]
      = ?running @ [10, 10] @ str ''---'' @ [10, 10] @ str ''Hello''"
    by (simp add: combined_text_def tool_line_def str_of_nat_digit type_icon_def TOOL_ICONS_def
          format_name_def details_def status_icon_def)
  have sr: "split_chunks ?running = [?running]" by (rule split_chunks_short) simp_all
  have nr: "strip ?running \<noteq> []" by (rule strip_nonempty[of 49]) (simp_all add: isspace_def)
  have s1: "stream_handler always_delivers 10 (tool_update [tool_call_dict (str ''X'') empty_input (str ''1'')])
      (init_stream_state, [CreateTypingTask])
    = (init_stream_state\<lparr>events := [?tool], messages := [2], message_contents := [?running]\<rparr>,
       [CreateTypingTask, ReplyText ?running Markdown])"
    using sr nr cr
    by (simp add: stream_handler_def stream_handler_try_def tool_update_def has_tool_calls_def
          the_tool_calls_def with_events_def tool_event_def tool_call_dict_def
          update_stream_message_def init_stream_state_def always_delivers_def)
  have s2: "stream_handler always_delivers (10.1) (text_update (str ''Hello''))
      (init_stream_state\<lparr>events := [?tool], messages := [2], message_contents := [?running]\<rparr>,
       [CreateTypingTask, ReplyText ?running Markdown])
    = (init_stream_state\<lparr>events := [?tool, Text (str ''Hello'')], messages := [2],
                           message_contents := [?running]\<rparr>,
       [CreateTypingTask, ReplyText ?running Markdown])"
    by (subst text_update_without_key)
       (simp_all add: init_stream_state_def text_update_def has_tool_calls_def the_content_def
          with_events_def merge_text_def)
  have s3: "stream_handler always_delivers (10.2) (error_update (str ''boom'')) w = w" for w
    by (simp add: stream_handler_def stream_handler_try_def error_update_def)
  have a: "stream_handlers always_delivers
     [(10, tool_update [tool_call_dict (str ''X'') empty_input (str ''1'')]),
      (10.1, text_update (str ''Hello'')), (10.2, error_update (str ''boom''))]
     (init_stream_state, [CreateTypingTask])
    = (init_stream_state\<lparr>events := [?tool, Text (str ''Hello'')], messages := [2],
                           message_contents := [?running]\<rparr>,
       [CreateTypingTask, ReplyText ?running Markdown])"
    using s1 s2 s3 by simp
  have b: "stream_handlers always_delivers
     [(10, tool_update [tool_call_dict (str ''X'') empty_input (str ''1'')]),
      (10.1, text_update (str ''Hello''))]
     (init_stream_state, [CreateTypingTask])
    = (init_stream_state\<lparr>events := [?tool, Text (str ''Hello'')], messages := [2],
                           message_contents := [?running]\<rparr>,
       [CreateTypingTask, ReplyText ?running Markdown])"
    using s1 s2 by simp
  show ?thesis
    unfolding run_turn_def Let_def a b using ct by simp
qed


section \<open>Error updates and the response after the turn\<close>










end
